theory Spec2Isabelle
  imports Complex_Main
begin

section \<open>The live voice session (components/LiveSession.tsx)\<close>

text \<open>
  The component keeps its mutable data in React refs and talks to the browser (Web Audio,
  media devices) and to the streaming SDK. The model is a record of the refs, explicit
  state passing for every callback, and a chronological trace \<open>calls\<close> of the calls the
  component makes to the outside. Times are the seconds of \<open>AudioContext.currentTime\<close>.
  A time is a real number (every finite double is one); comparisons and \<open>Math.max\<close> are
  exact on doubles, but the addition of doubles rounds, so it is not taken to be the
  addition of reals: it is a parameter \<open>fadd\<close> of the model, and what is proved holds for
  every such operation (where a property of it is needed, it is a stated hypothesis).
\<close>

datatype js_error =
    DecodeError | InvalidStateError | NetworkError | ApiError string | TypeError
  | SyntaxError | NoResponseText

text \<open>An \<open>AudioBuffer\<close>: the callback reads its \<open>duration\<close> attribute only, a double that
  the browser provides.\<close>

record audio_buffer =
  duration :: real

text \<open>An \<open>AudioBufferSourceNode\<close> made by \<open>ctx.createBufferSource()\<close>: a fresh object
  (its identity is a number) holding the decoded buffer.\<close>

record source_node =
  node_id :: nat
  node_buffer :: audio_buffer

text \<open>What the callbacks of \<open>sessionPromise.then\<close> do once the session is there.\<close>

datatype 'p reaction = SendInput 'p | CloseSession

datatype promise_state = Pending | Fulfilled | Rejected

text \<open>The calls to the outside, in the order in which they are made.
  \<open>SourceStart n clock startTime d\<close> is \<open>source.start(startTime)\<close> for node \<open>n\<close>, whose
  buffer lasts \<open>d\<close>, called when the clock of the output context reads \<open>clock\<close>.\<close>

datatype 'p effect =
    ConsoleLog string
  | ConsoleError string
  | SourceStart nat real real real
  | SourceStop nat
  | ProcessorDisconnect
  | SourceNodeDisconnect
  | TrackStop nat
  | InputContextClose
  | OutputContextClose
  | SendRealtimeInput 'p
  | SessionClose
  | CancelAnimationFrame nat

text \<open>The fields of a \<open>LiveServerMessage\<close> that \<open>onmessage\<close> reads:
  \<open>serverContent?.interrupted\<close> (its truthiness) and
  \<open>serverContent?.modelTurn?.parts?.[0]?.inlineData?.data\<close>.\<close>

record server_message =
  interrupted :: bool
  inlineData :: "string option"

text \<open>The closure \<open>processor.onaudioprocess\<close>: the only variable of the component body
  it reads is the \<open>isMuted\<close> binding of the render that called \<open>connectToLive\<close>.\<close>

record script_processor =
  closure_isMuted :: bool

record 'p live_session =
  isMuted :: bool
  inputAudioContextRef :: "nat option"
  outputAudioContextRef :: "nat option"
  nextStartTimeRef :: real
  sourcesRef :: "source_node list"
  streamRef :: "nat list option"
  sessionRef :: "unit option"
  processorRef :: "script_processor option"
  sourceNodeRef :: "unit option"
  requestRef :: "nat option"
  sessionPromise :: promise_state
  reactions :: "'p reaction list"
  microtasks :: "'p reaction list"
  inflight :: "string list"
  node_counter :: nat
  calls :: "'p effect list"


subsection \<open>Playback: the \<open>onmessage\<close> callback\<close>

text \<open>\<open>source.stop()\<close> may raise; which nodes do is a parameter \<open>raises\<close> of the
  model. A stop that returns is recorded in the trace.\<close>

definition source_stop :: "(nat \<Rightarrow> bool) \<Rightarrow> source_node \<Rightarrow> 'p live_session \<Rightarrow> js_error + 'p live_session" where
  "source_stop raises source st =
     (if raises (node_id source) then Inl InvalidStateError
      else Inr (st\<lparr>calls := calls st @ [SourceStop (node_id source)]\<rparr>))"

text \<open>\<open>try { source.stop(); } catch(e) {}\<close>: the handler is empty, so after a raise
  the state is the one before the call.\<close>

definition try_stop :: "(nat \<Rightarrow> bool) \<Rightarrow> 'p live_session \<Rightarrow> source_node \<Rightarrow> 'p live_session" where
  "try_stop raises st source =
     (case source_stop raises source st of Inl e \<Rightarrow> st | Inr st' \<Rightarrow> st')"

text \<open>\<open>sourcesRef.current.forEach(source => { try { source.stop(); } catch(e) {} })\<close>,
  in the insertion order of the set.\<close>

definition stop_sources :: "(nat \<Rightarrow> bool) \<Rightarrow> 'p live_session \<Rightarrow> 'p live_session" where
  "stop_sources raises st = foldl (try_stop raises) st (sourcesRef st)"

text \<open>The branch \<open>if (interrupted) { ... return; }\<close>.\<close>

definition on_interrupted :: "(nat \<Rightarrow> bool) \<Rightarrow> 'p live_session \<Rightarrow> 'p live_session" where
  "on_interrupted raises st =
     (stop_sources raises (st\<lparr>calls := calls st @ [ConsoleLog ''Interrupted'']\<rparr>))
       \<lparr>sourcesRef := [], nextStartTimeRef := 0\<rparr>"

text \<open>The statement before the \<open>try\<close>:
  \<open>nextStartTimeRef.current = Math.max(nextStartTimeRef.current, ctx.currentTime)\<close>;
  \<open>now\<close> is the value of \<open>ctx.currentTime\<close> read there.\<close>

definition anchor :: "real \<Rightarrow> 'p live_session \<Rightarrow> 'p live_session" where
  "anchor now st = st\<lparr>nextStartTimeRef := max (nextStartTimeRef st) now\<rparr>"

text \<open>The rest of the callback, after \<open>await decodeAudioData(...)\<close>, given the outcome of
  the decoding: on success the new source is started at \<open>nextStartTimeRef\<close>, the anchor
  moves on by the buffer's duration (\<open>+=\<close> on doubles) and the source joins the set; on
  failure the \<open>catch\<close> logs and nothing else changes. \<open>clock\<close> is what the clock of the
  output context reads when this part runs; the code does not read it.\<close>

definition onmessage_resume ::
  "(real \<Rightarrow> real \<Rightarrow> real) \<Rightarrow> real \<Rightarrow> js_error + audio_buffer \<Rightarrow> 'p live_session
     \<Rightarrow> 'p live_session" where
  "onmessage_resume fadd clock outcome st =
     (case outcome of
        Inl e \<Rightarrow> st\<lparr>calls := calls st @ [ConsoleError ''Audio decode error'']\<rparr>
      | Inr audioBuffer \<Rightarrow>
          let source = \<lparr>node_id = node_counter st, node_buffer = audioBuffer\<rparr> in
          st\<lparr>calls := calls st @
                 [SourceStart (node_id source) clock (nextStartTimeRef st) (duration audioBuffer)],
             nextStartTimeRef := fadd (nextStartTimeRef st) (duration audioBuffer),
             sourcesRef := sourcesRef st @ [source],
             node_counter := Suc (node_counter st)\<rparr>)"

text \<open>The callback in the case that its decoding settles at once: it runs to its end
  with no other callback in between and the clock still reads \<open>now\<close> when the source is
  started. (The general case is the run of events below.) In the guard
  \<open>base64Audio && outputAudioContextRef.current\<close> a missing and an empty string are
  both falsy. The decoder
  (\<open>decodeAudioData\<close> after \<open>base64ToUint8Array\<close>, of services/audioUtils, which is not
  among the sources) is the parameter \<open>decode\<close>.\<close>

definition onmessage ::
  "(real \<Rightarrow> real \<Rightarrow> real) \<Rightarrow> (string \<Rightarrow> js_error + audio_buffer) \<Rightarrow> (nat \<Rightarrow> bool) \<Rightarrow> real
     \<Rightarrow> server_message \<Rightarrow> 'p live_session \<Rightarrow> 'p live_session" where
  "onmessage fadd decode raises now message st =
     (if interrupted message then on_interrupted raises st
      else case inlineData message of
          None \<Rightarrow> st
        | Some base64Audio \<Rightarrow>
            if base64Audio \<noteq> [] \<and> outputAudioContextRef st \<noteq> None
            then onmessage_resume fadd now (decode base64Audio) (anchor now st)
            else st)"

definition audio_message :: "string \<Rightarrow> server_message" where
  "audio_message base64Audio = \<lparr>interrupted = False, inlineData = Some base64Audio\<rparr>"

definition interrupt_message :: server_message where
  "interrupt_message = \<lparr>interrupted = True, inlineData = None\<rparr>"

text \<open>The start time and the duration of every \<open>source.start\<close> call of a trace.\<close>

fun scheduled :: "'p effect list \<Rightarrow> (real \<times> real) list" where
  "scheduled [] = []"
| "scheduled (SourceStart n clock startTime d # tr) = (startTime, d) # scheduled tr"
| "scheduled (e # tr) = scheduled tr"

text \<open>The scheduler as the specification words it: \<open>startTime = max(now, nextFreeTime)\<close>,
  then \<open>nextFreeTime = startTime + bufferDuration\<close>, the sum being the one of doubles. The
  input is the clock reading and the duration of each buffer, the output the start time
  and the duration of each.\<close>

fun spec_schedule ::
  "(real \<Rightarrow> real \<Rightarrow> real) \<Rightarrow> real \<Rightarrow> (real \<times> real) list \<Rightarrow> (real \<times> real) list" where
  "spec_schedule fadd nextFreeTime [] = []"
| "spec_schedule fadd nextFreeTime ((now, bufferDuration) # rest) =
     (let startTime = max now nextFreeTime
      in (startTime, bufferDuration) # spec_schedule fadd (fadd startTime bufferDuration) rest)"

text \<open>When a started buffer sounds. \<open>source.start(startTime)\<close> called with a start time
  that is already past begins playing at once, so a buffer started at clock reading
  \<open>clock\<close> sounds from the later of \<open>startTime\<close> and \<open>clock\<close>, for its duration.\<close>

definition sounds :: "(real \<Rightarrow> real \<Rightarrow> real) \<Rightarrow> real \<Rightarrow> real \<Rightarrow> real \<Rightarrow> real \<Rightarrow> bool" where
  "sounds fadd clock startTime d instant =
     (max startTime clock \<le> instant \<and> instant < fadd (max startTime clock) d)"


subsection \<open>Playback with callbacks in flight\<close>

text \<open>
  \<open>onmessage\<close> is an \<open>async\<close> function: at \<open>await decodeAudioData(...)\<close> it is
  suspended, and other callbacks may run before it goes on. \<open>inflight\<close> holds the
  payloads of the suspended calls. An event is a message arriving (the callback runs up
  to its \<open>await\<close>, or to its end when it has none), the decoding of a suspended call
  settling (the callback runs from the \<open>await\<close> to its end), or a source ending
  (\<open>source.onended\<close> removes it from the set). \<open>Message\<close> and \<open>Settled\<close> carry what the
  clock of the output context reads when the callback runs.
\<close>

datatype event = Message real server_message | Settled real nat | Ended nat

definition onmessage_begin ::
  "(nat \<Rightarrow> bool) \<Rightarrow> real \<Rightarrow> server_message \<Rightarrow> 'p live_session \<Rightarrow> 'p live_session" where
  "onmessage_begin raises now message st =
     (if interrupted message then on_interrupted raises st
      else case inlineData message of
          None \<Rightarrow> st
        | Some base64Audio \<Rightarrow>
            if base64Audio \<noteq> [] \<and> outputAudioContextRef st \<noteq> None
            then (anchor now st)\<lparr>inflight := inflight st @ [base64Audio]\<rparr>
            else st)"

definition settle ::
  "(real \<Rightarrow> real \<Rightarrow> real) \<Rightarrow> (string \<Rightarrow> js_error + audio_buffer) \<Rightarrow> real \<Rightarrow> nat
     \<Rightarrow> 'p live_session \<Rightarrow> 'p live_session" where
  "settle fadd decode clock i st =
     (if i < length (inflight st)
      then onmessage_resume fadd clock (decode (inflight st ! i))
             (st\<lparr>inflight := take i (inflight st) @ drop (Suc i) (inflight st)\<rparr>)
      else st)"

definition onended :: "nat \<Rightarrow> 'p live_session \<Rightarrow> 'p live_session" where
  "onended n st = st\<lparr>sourcesRef := filter (\<lambda>source. node_id source \<noteq> n) (sourcesRef st)\<rparr>"

fun step ::
  "(real \<Rightarrow> real \<Rightarrow> real) \<Rightarrow> (string \<Rightarrow> js_error + audio_buffer) \<Rightarrow> (nat \<Rightarrow> bool)
     \<Rightarrow> 'p live_session \<Rightarrow> event \<Rightarrow> 'p live_session" where
  "step fadd decode raises st (Message now message) = onmessage_begin raises now message st"
| "step fadd decode raises st (Settled clock i) = settle fadd decode clock i st"
| "step fadd decode raises st (Ended n) = onended n st"

definition run ::
  "(real \<Rightarrow> real \<Rightarrow> real) \<Rightarrow> (string \<Rightarrow> js_error + audio_buffer) \<Rightarrow> (nat \<Rightarrow> bool) \<Rightarrow> event list
     \<Rightarrow> 'p live_session \<Rightarrow> 'p live_session" where
  "run fadd decode raises events st = foldl (step fadd decode raises) st events"

text \<open>Chunks arriving one after the other while their decodings are still in flight, and
  chunks handled in turn: the decoding of each settles (at the same clock reading) before
  the next message arrives. \<open>k\<close> is the number of decodings in flight before.\<close>

definition arrivals :: "(real \<times> string) list \<Rightarrow> event list" where
  "arrivals chunks = map (\<lambda>(now, base64Audio). Message now (audio_message base64Audio)) chunks"

definition in_turn :: "nat \<Rightarrow> (real \<times> string) list \<Rightarrow> event list" where
  "in_turn k chunks =
     concat (map (\<lambda>(now, base64Audio). [Message now (audio_message base64Audio), Settled now k])
               chunks)"


text \<open>No two scheduled ranges of one epoch overlap: read along a trace, the start time
  of every \<open>source.start\<close> is at or after the end (start time plus duration, as the code
  adds them) of every earlier buffer started since the last interruption. \<open>epoch\<close> holds
  the start time and duration of those.\<close>

fun no_overlap :: "(real \<Rightarrow> real \<Rightarrow> real) \<Rightarrow> (real \<times> real) list \<Rightarrow> 'p effect list \<Rightarrow> bool" where
  "no_overlap fadd epoch [] = True"
| "no_overlap fadd epoch (SourceStart n clock startTime d # tr) =
     (list_all (\<lambda>(s0, d0). fadd s0 d0 \<le> startTime) epoch
      \<and> no_overlap fadd (epoch @ [(startTime, d)]) tr)"
| "no_overlap fadd epoch (ConsoleLog msg # tr) =
     no_overlap fadd (if msg = ''Interrupted'' then [] else epoch) tr"
| "no_overlap fadd epoch (e # tr) = no_overlap fadd epoch tr"


subsection \<open>The session promise\<close>

text \<open>
  \<open>sessionPromise\<close> is the promise returned by \<open>liveClient.connect\<close>. A callback given
  to \<open>then\<close> while it is pending waits in \<open>reactions\<close>, in the order of registration;
  once it is fulfilled such a callback becomes a microtask at once. A rejected promise
  runs none of them. Microtasks run, oldest first, when the running callback has returned.
\<close>

definition promise_then :: "'p reaction \<Rightarrow> 'p live_session \<Rightarrow> 'p live_session" where
  "promise_then r st =
     (case sessionPromise st of
        Pending \<Rightarrow> st\<lparr>reactions := reactions st @ [r]\<rparr>
      | Fulfilled \<Rightarrow> st\<lparr>microtasks := microtasks st @ [r]\<rparr>
      | Rejected \<Rightarrow> st)"

definition settle_session :: "bool \<Rightarrow> 'p live_session \<Rightarrow> 'p live_session" where
  "settle_session resolved st =
     (case sessionPromise st of
        Pending \<Rightarrow>
          if resolved
          then st\<lparr>sessionPromise := Fulfilled,
                  microtasks := microtasks st @ reactions st, reactions := []\<rparr>
          else st\<lparr>sessionPromise := Rejected, reactions := []\<rparr>
      | Fulfilled \<Rightarrow> st
      | Rejected \<Rightarrow> st)"

fun perform :: "'p reaction \<Rightarrow> 'p effect" where
  "perform (SendInput pcmBlob) = SendRealtimeInput pcmBlob"
| "perform CloseSession = SessionClose"

definition run_microtasks :: "'p live_session \<Rightarrow> 'p live_session" where
  "run_microtasks st = st\<lparr>calls := calls st @ map perform (microtasks st), microtasks := []\<rparr>"

subsection \<open>Set-up: \<open>connectToLive\<close> and \<open>onopen\<close>\<close>

text \<open>The refs and the state of the first render. (\<open>isConnected\<close>, \<open>error\<close> and
  \<open>visualizerData\<close> only feed the display and are left out.)\<close>

definition initial_session :: "'p live_session" where
  "initial_session =
     \<lparr>isMuted = False, inputAudioContextRef = None, outputAudioContextRef = None,
      nextStartTimeRef = 0, sourcesRef = [], streamRef = None, sessionRef = None,
      processorRef = None, sourceNodeRef = None, requestRef = None,
      sessionPromise = Pending, reactions = [], microtasks = [], inflight = [],
      node_counter = 0, calls = []\<rparr>"

text \<open>\<open>connectToLive\<close>: the two contexts, then \<open>await getUserMedia\<close> (its outcome is the
  parameter \<open>media\<close>: the tracks of the stream, or the error), then the connection. A
  failure is caught and logged.\<close>

definition connectToLive :: "js_error + nat list \<Rightarrow> 'p live_session \<Rightarrow> 'p live_session" where
  "connectToLive media st =
     (let st1 = st\<lparr>inputAudioContextRef := Some 16000, outputAudioContextRef := Some 24000\<rparr>
      in case media of
           Inl e \<Rightarrow> st1\<lparr>calls := calls st1 @ [ConsoleError ''Setup failed'']\<rparr>
         | Inr tracks \<Rightarrow>
             st1\<lparr>streamRef := Some tracks, sessionPromise := Pending, reactions := [],
                 sessionRef := Some ()\<rparr>)"

text \<open>\<open>onopen\<close> installs the processor. \<open>render_isMuted\<close> is the value of the constant
  \<open>isMuted\<close> in the render whose \<open>connectToLive\<close> made this callback: the closure
  \<open>onaudioprocess\<close> reads that binding, not the current state.\<close>

definition onopen :: "bool \<Rightarrow> 'p live_session \<Rightarrow> 'p live_session" where
  "onopen render_isMuted st =
     (let st1 = st\<lparr>calls := calls st @ [ConsoleLog ''Live Session Connected'']\<rparr>
      in if inputAudioContextRef st1 = None \<or> streamRef st1 = None then st1
         else st1\<lparr>sourceNodeRef := Some (),
                  processorRef := Some \<lparr>closure_isMuted = render_isMuted\<rparr>\<rparr>)"

text \<open>\<open>useEffect(() => { connectToLive(); return cleanupAudio; }, [])\<close> runs after the
  first render only, so the callbacks of the session close over the first render's
  \<open>isMuted\<close>, which is the initial state \<open>useState(false)\<close>.\<close>

definition mounted :: "nat list \<Rightarrow> 'p live_session" where
  "mounted tracks = connectToLive (Inr tracks) initial_session"

definition opened :: "nat list \<Rightarrow> 'p live_session" where
  "opened tracks = onopen (isMuted (initial_session :: 'p live_session)) (mounted tracks)"

subsection \<open>Capture: \<open>onaudioprocess\<close> and \<open>toggleMute\<close>\<close>

text \<open>\<open>toggleMute\<close> belongs to the latest render: \<open>setIsMuted(!isMuted)\<close> flips the state.\<close>

definition toggleMute :: "'p live_session \<Rightarrow> 'p live_session" where
  "toggleMute st = st\<lparr>isMuted := \<not> isMuted st\<rparr>"

text \<open>The callback of the processor for one frame. \<open>createPcmBlob\<close> (of
  services/audioUtils, not among the sources) is a parameter. The level for the display
  is left out.\<close>

definition onaudioprocess ::
  "('f \<Rightarrow> 'p) \<Rightarrow> script_processor \<Rightarrow> 'f \<Rightarrow> 'p live_session \<Rightarrow> 'p live_session" where
  "onaudioprocess createPcmBlob processor inputData st =
     (if closure_isMuted processor then st
      else promise_then (SendInput (createPcmBlob inputData)) st)"

text \<open>What can happen on the capture side: the device delivers a frame to the installed
  processor, the user presses the mute button, the connection promise settles. Each is
  one callback, followed by the microtasks it left.\<close>

datatype 'f capture_event = AudioProcess 'f | ToggleMute | SessionSettled bool

fun capture_step :: "('f \<Rightarrow> 'p) \<Rightarrow> 'p live_session \<Rightarrow> 'f capture_event \<Rightarrow> 'p live_session" where
  "capture_step createPcmBlob st (AudioProcess inputData) =
     run_microtasks
       (case processorRef st of
          None \<Rightarrow> st
        | Some processor \<Rightarrow> onaudioprocess createPcmBlob processor inputData st)"
| "capture_step createPcmBlob st ToggleMute = run_microtasks (toggleMute st)"
| "capture_step createPcmBlob st (SessionSettled resolved) =
     run_microtasks (settle_session resolved st)"

definition capture_run ::
  "('f \<Rightarrow> 'p) \<Rightarrow> 'f capture_event list \<Rightarrow> 'p live_session \<Rightarrow> 'p live_session" where
  "capture_run createPcmBlob events st = foldl (capture_step createPcmBlob) st events"

text \<open>The frames of a run in the order of capture, and the packets of a trace in
  the order of sending.\<close>

fun captured :: "'f capture_event list \<Rightarrow> 'f list" where
  "captured [] = []"
| "captured (AudioProcess inputData # events) = inputData # captured events"
| "captured (e # events) = captured events"

fun sent :: "'p effect list \<Rightarrow> 'p list" where
  "sent [] = []"
| "sent (SendRealtimeInput pcmBlob # tr) = pcmBlob # sent tr"
| "sent (e # tr) = sent tr"

fun queued :: "'p reaction list \<Rightarrow> 'p list" where
  "queued [] = []"
| "queued (SendInput pcmBlob # rs) = pcmBlob # queued rs"
| "queued (r # rs) = queued rs"

subsection \<open>Tear-down: \<open>cleanupAudio\<close>\<close>

text \<open>One definition for each \<open>if\<close> block of \<open>cleanupAudio\<close>, in the order of the source.\<close>

definition release_processor :: "'p live_session \<Rightarrow> 'p live_session" where
  "release_processor st =
     (case processorRef st of
        None \<Rightarrow> st
      | Some processor \<Rightarrow> st\<lparr>calls := calls st @ [ProcessorDisconnect], processorRef := None\<rparr>)"

definition release_sourceNode :: "'p live_session \<Rightarrow> 'p live_session" where
  "release_sourceNode st =
     (case sourceNodeRef st of
        None \<Rightarrow> st
      | Some node \<Rightarrow> st\<lparr>calls := calls st @ [SourceNodeDisconnect], sourceNodeRef := None\<rparr>)"

definition release_stream :: "'p live_session \<Rightarrow> 'p live_session" where
  "release_stream st =
     (case streamRef st of
        None \<Rightarrow> st
      | Some tracks \<Rightarrow> st\<lparr>calls := calls st @ map TrackStop tracks, streamRef := None\<rparr>)"

definition release_input :: "'p live_session \<Rightarrow> 'p live_session" where
  "release_input st =
     (case inputAudioContextRef st of
        None \<Rightarrow> st
      | Some ctx \<Rightarrow> st\<lparr>calls := calls st @ [InputContextClose], inputAudioContextRef := None\<rparr>)"

definition release_output :: "(nat \<Rightarrow> bool) \<Rightarrow> 'p live_session \<Rightarrow> 'p live_session" where
  "release_output raises st =
     (case outputAudioContextRef st of
        None \<Rightarrow> st
      | Some ctx \<Rightarrow>
          let st1 = (stop_sources raises st)\<lparr>sourcesRef := []\<rparr>
          in st1\<lparr>calls := calls st1 @ [OutputContextClose], outputAudioContextRef := None\<rparr>)"

definition release_session :: "'p live_session \<Rightarrow> 'p live_session" where
  "release_session st =
     (case sessionRef st of
        None \<Rightarrow> st
      | Some promise \<Rightarrow> (promise_then CloseSession st)\<lparr>sessionRef := None\<rparr>)"

text \<open>\<open>if (requestRef.current) cancelAnimationFrame(requestRef.current)\<close>: the number 0
  is falsy, and the ref is not reset.\<close>

definition cancel_frame :: "'p live_session \<Rightarrow> 'p live_session" where
  "cancel_frame st =
     (case requestRef st of
        None \<Rightarrow> st
      | Some frame \<Rightarrow>
          if frame \<noteq> 0 then st\<lparr>calls := calls st @ [CancelAnimationFrame frame]\<rparr> else st)"

definition cleanupAudio :: "(nat \<Rightarrow> bool) \<Rightarrow> 'p live_session \<Rightarrow> 'p live_session" where
  "cleanupAudio raises st =
     cancel_frame (release_session (release_output raises (release_input
       (release_stream (release_sourceNode (release_processor st))))))"

text \<open>The calls of a trace that release one of the session's resources: the processor
  node, the microphone's tracks, the two audio contexts, the scheduled sources and the
  network session. A session close that waits for the promise counts as made.\<close>

fun is_release :: "'p effect \<Rightarrow> bool" where
  "is_release ProcessorDisconnect = True"
| "is_release SourceNodeDisconnect = True"
| "is_release (TrackStop t) = True"
| "is_release InputContextClose = True"
| "is_release OutputContextClose = True"
| "is_release (SourceStop n) = True"
| "is_release SessionClose = True"
| "is_release e = False"

definition releases :: "'p live_session \<Rightarrow> 'p effect list" where
  "releases st =
     filter is_release (calls st @ map perform (microtasks st) @ map perform (reactions st))"


text \<open>The epoch reached at the end of a trace: the buffers started since its last
  interruption, after those of \<open>epoch\<close> when it has none.\<close>

fun epoch_after :: "(real \<times> real) list \<Rightarrow> 'p effect list \<Rightarrow> (real \<times> real) list" where
  "epoch_after epoch [] = epoch"
| "epoch_after epoch (SourceStart n clock startTime d # tr) =
     epoch_after (epoch @ [(startTime, d)]) tr"
| "epoch_after epoch (ConsoleLog msg # tr) =
     epoch_after (if msg = ''Interrupted'' then [] else epoch) tr"
| "epoch_after epoch (e # tr) = epoch_after epoch tr"

text \<open>The invariant of the scheduler: the trace has no overlap, and every buffer of the
  current epoch ends at or before the anchor.\<close>

definition sched_inv :: "(real \<Rightarrow> real \<Rightarrow> real) \<Rightarrow> 'p live_session \<Rightarrow> bool" where
  "sched_inv fadd st = (no_overlap fadd [] (calls st)
     \<and> list_all (\<lambda>(s0, d0). fadd s0 d0 \<le> nextStartTimeRef st) (epoch_after [] (calls st)))"

text \<open>The nodes started in a trace.\<close>

fun started :: "'p effect list \<Rightarrow> nat list" where
  "started [] = []"
| "started (SourceStart n clock startTime d # tr) = n # started tr"
| "started (e # tr) = started tr"

text \<open>Node numbers are handed out in increasing order: the nodes of the set are all below
  the counter.\<close>

definition fresh_inv :: "'p live_session \<Rightarrow> bool" where
  "fresh_inv st = list_all (\<lambda>source. node_id source < node_counter st) (sourcesRef st)"

text \<open>The invariant of the capture side, for the packets made so far: the processor
  installed by \<open>onopen\<close> of the first render stays, no microtask is left between callbacks,
  and the packets are all waiting (promise pending), all sent (fulfilled) or none sent
  (rejected).\<close>

definition capture_inv :: "'p list \<Rightarrow> 'p live_session \<Rightarrow> bool" where
  "capture_inv packets st =
     (processorRef st = Some \<lparr>closure_isMuted = False\<rparr> \<and> microtasks st = []
      \<and> (case sessionPromise st of
            Pending \<Rightarrow> sent (calls st) = [] \<and> queued (reactions st) = packets
          | Fulfilled \<Rightarrow> sent (calls st) = packets
          | Rejected \<Rightarrow> sent (calls st) = []))"

section \<open>The analysis service (\<open>analyzeDiaryEntry\<close>)\<close>

text \<open>
  A promise that rejects is \<open>Inl\<close> of the error, one that resolves is \<open>Inr\<close> of the
  value. \<open>try { body } catch (error) { handler }\<close> is \<open>try_catch\<close>. The network and the
  JSON parser are parameters (\<open>services\<close>); writing to the console is left out here.
  Strings are lists of one-byte characters; the Chinese texts of the fallback results are
  given by their UTF-16 code units.
\<close>

definition try_catch :: "js_error + 'a \<Rightarrow> (js_error \<Rightarrow> js_error + 'a) \<Rightarrow> js_error + 'a" where
  "try_catch body handler = (case body of Inl e \<Rightarrow> handler e | Inr v \<Rightarrow> Inr v)"

datatype provider = Gemini | DeepSeek | SiliconFlow

record ai_config =
  provider :: provider
  apiKey :: "string option"
  model :: "string option"

datatype chat_message = SystemPrompt | UserText string

record chat_request =
  url :: string
  bearer :: string
  request_model :: string
  messages :: "chat_message list"
  jsonMode :: bool
  temperature :: real

text \<open>What the helpers read of a \<open>fetch\<close> response: \<open>response.ok\<close>,
  \<open>await response.text()\<close>, and the outcome of
  \<open>(await response.json()).choices[0].message.content\<close>.\<close>

record http_response =
  ok :: bool
  body_text :: string
  message_content :: "js_error + string"

datatype part = InlineData string string | AnalysisPrompt string bool | MultimodalPrompt string

record 'j services =
  fetch :: "chat_request \<Rightarrow> js_error + http_response"
  generateContent :: "string option \<Rightarrow> part list \<Rightarrow> js_error + string option"
  json_parse :: "string \<Rightarrow> js_error + 'j"

record analysis =
  moodScore :: nat
  tags :: "nat list list"
  summary :: "nat list"
  advice :: "nat list"

datatype 'j analysis_result = Parsed 'j | Fallback analysis

text \<open>A string (or \<open>undefined\<close>) used as a condition: missing and empty are falsy.\<close>

fun truthy :: "string option \<Rightarrow> bool" where
  "truthy None = False"
| "truthy (Some s) = (s \<noteq> [])"

text \<open>\<open>a || b\<close> on strings.\<close>

fun or_else :: "string option \<Rightarrow> string \<Rightarrow> string" where
  "or_else None b = b"
| "or_else (Some a) b = (if a \<noteq> [] then a else b)"

definition callDeepSeek :: "'j services \<Rightarrow> chat_message list \<Rightarrow> string \<Rightarrow> bool \<Rightarrow> js_error + string" where
  "callDeepSeek svc msgs key json =
     try_catch
       (case fetch svc \<lparr>url = ''https://api.deepseek.com/chat/completions'', bearer = key,
                         request_model = ''deepseek-chat'', messages = msgs, jsonMode = json,
                         temperature = 13 / 10\<rparr> of
          Inl e \<Rightarrow> Inl e
        | Inr response \<Rightarrow>
            if \<not> ok response then Inl (ApiError (''DeepSeek API Error: '' @ body_text response))
            else message_content response)
       (\<lambda>error. Inl error)"

definition callSiliconFlow ::
  "'j services \<Rightarrow> chat_message list \<Rightarrow> string \<Rightarrow> string \<Rightarrow> bool \<Rightarrow> js_error + string" where
  "callSiliconFlow svc msgs key mdl json =
     try_catch
       (let targetModel = or_else (Some mdl) ''deepseek-ai/DeepSeek-V3''

        in case fetch svc \<lparr>url = ''https://api.siliconflow.cn/v1/chat/completions'',
                            bearer = key, request_model = targetModel, messages = msgs,
                            jsonMode = json, temperature = 7 / 10\<rparr> of
             Inl e \<Rightarrow> Inl e
           | Inr response \<Rightarrow>
               if \<not> ok response
               then Inl (ApiError (''SiliconFlow API Error: '' @ body_text response))
               else message_content response)
       (\<lambda>error. Inl error)"

text \<open>\<open>att.match(/^data:(\w+\/[\w-.+]+);base64,(.+)$/)\<close>: the two groups, when the whole
  string matches. \<open>\w\<close> is a letter, a digit or an underscore; the class \<open>[\w-.+]\<close>
  adds \<open>-\<close>, \<open>.\<close> and \<open>+\<close>; \<open>.\<close> is any character but a line terminator.\<close>

definition is_word_char :: "char \<Rightarrow> bool" where
  "is_word_char c =
     (let n = (of_char c :: nat)
      in (48 \<le> n \<and> n \<le> 57) \<or> (65 \<le> n \<and> n \<le> 90) \<or> n = 95 \<or> (97 \<le> n \<and> n \<le> 122))"

definition is_subtype_char :: "char \<Rightarrow> bool" where
  "is_subtype_char c = (is_word_char c \<or> c = CHR ''-'' \<or> c = CHR ''.'' \<or> c = CHR ''+'')"

definition is_line_terminator :: "char \<Rightarrow> bool" where
  "is_line_terminator c = ((of_char c :: nat) = 10 \<or> (of_char c :: nat) = 13)"

definition match_data_url :: "string \<Rightarrow> (string \<times> string) option" where
  "match_data_url att =
     (if take 5 att \<noteq> ''data:'' then None
      else
        let r0 = drop 5 att;
            major = takeWhile is_word_char r0;
            r1 = dropWhile is_word_char r0
        in if major = [] then None
           else case r1 of
               [] \<Rightarrow> None
             | c # r2 \<Rightarrow>
                 if c \<noteq> CHR ''/'' then None
                 else
                   let minor = takeWhile is_subtype_char r2;
                       r3 = dropWhile is_subtype_char r2
                   in if minor = [] \<or> take 8 r3 \<noteq> '';base64,'' then None
                      else
                        let payload = drop 8 r3
                        in if payload = [] \<or> list_ex is_line_terminator payload then None
                           else Some (major @ ''/'' @ minor, payload))"

text \<open>The loop over the attachments: one inline part for each that matches.\<close>

fun attachment_parts :: "string list \<Rightarrow> part list" where
  "attachment_parts [] = []"
| "attachment_parts (att # atts) =
     (case match_data_url att of
        None \<Rightarrow> attachment_parts atts
      | Some (mimeType, payload) \<Rightarrow> InlineData mimeType payload # attachment_parts atts)"

text \<open>\<open>if (response.text) return JSON.parse(response.text); throw new Error(...)\<close>.\<close>

definition parse_response_text :: "'j services \<Rightarrow> string option \<Rightarrow> js_error + 'j" where
  "parse_response_text svc response_text =
     (case response_text of
        None \<Rightarrow> Inl NoResponseText
      | Some t \<Rightarrow> if t \<noteq> [] then json_parse svc t else Inl NoResponseText)"

definition fallback_analysis :: analysis where
  "fallback_analysis =
     \<lparr>moodScore = 5, tags = [[20998, 26512, 20013, 26029]],
      summary = [26242, 26102, 26080, 27861, 20998, 26512, 20869, 23481, 12290],
      advice = [35760, 24405, 26412, 36523, 23601, 26159, 19968, 31181, 30103, 24840, 12290]\<rparr>"

text \<open>The body of the \<open>try\<close> of \<open>analyzeDiaryEntry\<close> (with the provider configuration).\<close>

definition analysis_steps ::
  "'j services \<Rightarrow> string \<Rightarrow> string list \<Rightarrow> ai_config option \<Rightarrow> js_error + 'j" where
  "analysis_steps svc entry attachments config =
     (let hasAttachments = (attachments \<noteq> []);
          prov = (case config of None \<Rightarrow> Gemini | Some c \<Rightarrow> provider c);
          key = (case config of None \<Rightarrow> None | Some c \<Rightarrow> apiKey c);
          useDeepSeek = (prov = DeepSeek \<and> truthy key \<and> \<not> hasAttachments);
          useSiliconFlow = (prov = SiliconFlow \<and> truthy key \<and> \<not> hasAttachments)
      in if useDeepSeek
         then (case callDeepSeek svc [SystemPrompt, UserText entry] (or_else key []) True of
                 Inl e \<Rightarrow> Inl e
               | Inr content \<Rightarrow> json_parse svc content)
         else if useSiliconFlow
         then (case callSiliconFlow svc [SystemPrompt, UserText entry] (or_else key [])
                      (or_else (case config of None \<Rightarrow> None | Some c \<Rightarrow> model c)
                         ''deepseek-ai/DeepSeek-V3'')
                      True of
                 Inl e \<Rightarrow> Inl e
               | Inr content \<Rightarrow> json_parse svc content)
         else
           (let client = (if prov = Gemini \<and> truthy key then key else None);
                parts = attachment_parts attachments
                  @ [AnalysisPrompt entry
                       (hasAttachments \<and> (prov = DeepSeek \<or> prov = SiliconFlow))]
            in case generateContent svc client parts of
                 Inl e \<Rightarrow> Inl e
               | Inr response_text \<Rightarrow> parse_response_text svc response_text))"

definition analyzeDiaryEntry ::
  "'j services \<Rightarrow> string \<Rightarrow> string list \<Rightarrow> ai_config option \<Rightarrow> js_error + 'j analysis_result" where
  "analyzeDiaryEntry svc entry attachments config =
     try_catch
       (case analysis_steps svc entry attachments config of
          Inl e \<Rightarrow> Inl e
        | Inr parsed \<Rightarrow> Inr (Parsed parsed))
       (\<lambda>error. Inr (Fallback fallback_analysis))"

text \<open>The earlier version of the service, with the built-in client only.\<close>

definition fallback_analysis_gemini :: analysis where
  "fallback_analysis_gemini =
     \<lparr>moodScore = 5, tags = [[26410, 30693]],
      summary = [26080, 27861, 20998, 26512, 20869, 23481, 12290],
      advice = [28145, 21628, 21560, 65292, 19968, 20999, 37117, 20250, 22909, 36215, 26469,
                30340, 12290]\<rparr>"

definition analyzeDiaryEntry_gemini ::
  "'j services \<Rightarrow> string \<Rightarrow> string list \<Rightarrow> js_error + 'j analysis_result" where
  "analyzeDiaryEntry_gemini svc entry attachments =
     try_catch
       (case generateContent svc None (attachment_parts attachments @ [MultimodalPrompt entry]) of
          Inl e \<Rightarrow> Inl e
        | Inr response_text \<Rightarrow>
            (case parse_response_text svc response_text of
               Inl e \<Rightarrow> Inl e
             | Inr parsed \<Rightarrow> Inr (Parsed parsed)))
       (\<lambda>error. Inr (Fallback fallback_analysis_gemini))"


section \<open>Sample data\<close>

text \<open>A decoder for the examples: base64 text of 16-bit mono samples at 24 kHz (four
  characters carry three bytes, two bytes a frame); text whose length is no multiple of
  four is refused.\<close>

definition sample_decode :: "string \<Rightarrow> js_error + audio_buffer" where
  "sample_decode base64Audio =
     (if length base64Audio mod 4 \<noteq> 0 then Inl DecodeError
      else Inr \<lparr>duration = real (length base64Audio div 4 * 3 div 2) / 24000\<rparr>)"

text \<open>A payload of 20 ms (480 frames), and the buffer it decodes to.\<close>

definition chunk20 :: string where
  "chunk20 = replicate 1280 (CHR ''A'')"

definition buffer20 :: audio_buffer where
  "buffer20 = \<lparr>duration = 20 / 1000\<rparr>"

text \<open>A payload of half a second (12000 frames) and one of ten seconds, with their
  buffers. Their durations and the clock readings of the examples that use them are
  multiples of 1/4 well within the range of doubles, on which the addition of doubles is
  exact: there it is the addition of reals.\<close>

definition chunk500 :: string where
  "chunk500 = replicate 32000 (CHR ''A'')"

definition buffer500 :: audio_buffer where
  "buffer500 = \<lparr>duration = 1 / 2\<rparr>"

definition chunk10s :: string where
  "chunk10s = replicate 640000 (CHR ''A'')"

definition buffer10s :: audio_buffer where
  "buffer10s = \<lparr>duration = 10\<rparr>"

text \<open>No \<open>stop\<close> raises; the \<open>stop\<close> of node 0 raises.\<close>

definition never_raises :: "nat \<Rightarrow> bool" where
  "never_raises n = False"

definition node0_raises :: "nat \<Rightarrow> bool" where
  "node0_raises n = (n = 0)"

text \<open>A session in the middle of playback: two chunks of half a second handled in turn
  at 1 s and at 1.25 s, so that nodes 0 and 1 are in the set and the anchor is at 2 s.\<close>

definition playing_session :: "nat live_session" where
  "playing_session =
     run (+) sample_decode never_raises (in_turn 0 [(1, chunk500), (5 / 4, chunk500)])
       (opened [0])"

text \<open>A session with node 0 playing and the decoding of a second chunk in flight.\<close>

definition racing_session :: "nat live_session" where
  "racing_session =
     run (+) sample_decode never_raises
       [Message 1 (audio_message chunk500), Settled 1 0, Message (5 / 4) (audio_message chunk500)]
       (opened [0])"

text \<open>Services for the examples: one with no network (every call fails), and one that
  answers without content (HTTP replies that are not ok, Gemini responses with no text).
  Neither parses anything.\<close>

definition offline_services :: "nat services" where
  "offline_services =
     \<lparr>fetch = (\<lambda>request. Inl NetworkError),
      generateContent = (\<lambda>client parts. Inl NetworkError),
      json_parse = (\<lambda>s. Inl SyntaxError)\<rparr>"

definition silent_services :: "nat services" where
  "silent_services =
     \<lparr>fetch = (\<lambda>request. Inr \<lparr>ok = False, body_text = ''busy'', message_content = Inl TypeError\<rparr>),
      generateContent = (\<lambda>client parts. Inr None),
      json_parse = (\<lambda>s. Inl SyntaxError)\<rparr>"

definition deepseek_config :: ai_config where
  "deepseek_config = \<lparr>provider = DeepSeek, apiKey = Some ''sk-1'', model = None\<rparr>"

section \<open>Playback: the callbacks\<close>

lemma scheduled_append: "scheduled (xs @ ys) = scheduled xs @ scheduled ys"
  by (induction xs rule: scheduled.induct) auto

lemma foldl_try_stop:
  "foldl (try_stop raises) st xs =
     st\<lparr>calls := calls st @ map SourceStop (filter (\<lambda>n. \<not> raises n) (map node_id xs))\<rparr>"
  by (induction xs arbitrary: st) (auto simp: try_stop_def source_stop_def)

lemma stop_sources_eq:
  "stop_sources raises st =
     st\<lparr>calls := calls st @ map SourceStop (filter (\<lambda>n. \<not> raises n) (map node_id (sourcesRef st)))\<rparr>"
  by (simp add: stop_sources_def foldl_try_stop)

lemma on_interrupted_eq:
  "on_interrupted raises st =
     st\<lparr>calls := calls st @ ConsoleLog ''Interrupted''
              # map SourceStop (filter (\<lambda>n. \<not> raises n) (map node_id (sourcesRef st))),
        sourcesRef := [], nextStartTimeRef := 0\<rparr>"
  by (simp add: on_interrupted_def stop_sources_eq)

lemma onmessage_interrupt:
  "onmessage fadd decode raises now interrupt_message st = on_interrupted raises st"
  by (simp add: onmessage_def interrupt_message_def)

lemma onmessage_chunk:
  assumes "outputAudioContextRef st \<noteq> None" "base64Audio \<noteq> []"
    and "decode base64Audio = Inr audioBuffer"
  shows "onmessage fadd decode raises now (audio_message base64Audio) st =
     st\<lparr>calls := calls st @
            [SourceStart (node_counter st) now (max (nextStartTimeRef st) now) (duration audioBuffer)],
        nextStartTimeRef := fadd (max (nextStartTimeRef st) now) (duration audioBuffer),
        sourcesRef := sourcesRef st @ [\<lparr>node_id = node_counter st, node_buffer = audioBuffer\<rparr>],
        node_counter := Suc (node_counter st)\<rparr>"
  using assms
  by (simp add: onmessage_def audio_message_def onmessage_resume_def anchor_def Let_def)

text \<open>Handling a message to its end is the run in which its decoding settles at once.\<close>

lemma onmessage_as_run:
  "run fadd decode raises [Message now message, Settled now (length (inflight st))] st
     = onmessage fadd decode raises now message st"
  by (cases "inlineData message")
    (simp_all add: run_def onmessage_begin_def onmessage_def settle_def anchor_def
      on_interrupted_eq onmessage_resume_def Let_def)


lemma run_Cons:
  "run fadd decode raises (e # es) st = run fadd decode raises es (step fadd decode raises st e)"
  by (simp add: run_def)

lemma run_Nil: "run fadd decode raises [] st = st"
  by (simp add: run_def)

lemma settle_success:
  assumes "i < length (inflight st)" and "decode (inflight st ! i) = Inr b"
  shows "settle fadd decode clock i st =
     st\<lparr>inflight := take i (inflight st) @ drop (Suc i) (inflight st),
        calls := calls st @ [SourceStart (node_counter st) clock (nextStartTimeRef st) (duration b)],
        nextStartTimeRef := fadd (nextStartTimeRef st) (duration b),
        sourcesRef := sourcesRef st @ [\<lparr>node_id = node_counter st, node_buffer = b\<rparr>],
        node_counter := Suc (node_counter st)\<rparr>"
  using assms by (simp add: settle_def onmessage_resume_def Let_def)

lemma run_arrivals:
  assumes "outputAudioContextRef st \<noteq> None" and "\<forall>(now, a) \<in> set chunks. a \<noteq> []"
  shows "run fadd decode raises (arrivals chunks) st =
     st\<lparr>nextStartTimeRef := foldl max (nextStartTimeRef st) (map fst chunks),
        inflight := inflight st @ map snd chunks\<rparr>"
  using assms
proof (induction chunks arbitrary: st)
  case Nil
  then show ?case by (simp add: arrivals_def run_def)
next
  case (Cons c chunks)
  obtain now a where c: "c = (now, a)" by (cases c)
  from Cons.prems c have a: "a \<noteq> []" by auto
  let ?st1 = "st\<lparr>nextStartTimeRef := max (nextStartTimeRef st) now, inflight := inflight st @ [a]\<rparr>"
  have s1: "step fadd decode raises st (Message now (audio_message a)) = ?st1"
    using Cons.prems(1) a by (simp add: onmessage_begin_def audio_message_def anchor_def)
  have "run fadd decode raises (arrivals chunks) ?st1 =
     ?st1\<lparr>nextStartTimeRef := foldl max (nextStartTimeRef ?st1) (map fst chunks),
        inflight := inflight ?st1 @ map snd chunks\<rparr>"
    using Cons.prems by (intro Cons.IH) auto
  then show ?case
    using s1 by (simp add: c arrivals_def run_def)
qed

lemma foldl_max_ge: "(x::real) \<le> foldl max x ys"
proof (induction ys arbitrary: x)
  case Nil
  show ?case by simp
next
  case (Cons y ys)
  have "x \<le> max x y" by simp
  also have "\<dots> \<le> foldl max (max x y) ys" by (rule Cons.IH)
  finally show ?case by simp
qed

lemma foldl_max_bounded: "\<forall>y \<in> set ys. y \<le> x \<Longrightarrow> foldl max (x::real) ys = x"
  by (induction ys arbitrary: x) (auto simp: max_def)

lemma in_turn_Cons:
  "in_turn k ((now, a) # chunks) = [Message now (audio_message a), Settled now k] @ in_turn k chunks"
  by (simp add: in_turn_def)

lemma run_in_turn:
  fixes chunks :: "(real \<times> string \<times> audio_buffer) list"
  assumes "outputAudioContextRef st \<noteq> None"
    and "\<forall>(now, a, b) \<in> set chunks. a \<noteq> [] \<and> decode a = Inr b"
  shows "scheduled (calls (run fadd decode raises
             (in_turn (length (inflight st)) (map (\<lambda>(now, a, b). (now, a)) chunks)) st))
           = scheduled (calls st)
             @ spec_schedule fadd (nextStartTimeRef st) (map (\<lambda>(now, a, b). (now, duration b)) chunks)"
  using assms
proof (induction chunks arbitrary: st)
  case Nil
  then show ?case by (simp add: in_turn_def run_def)
next
  case (Cons c chunks)
  obtain now a b where c: "c = (now, a, b)" by (cases c) auto
  from Cons.prems c have a: "a \<noteq> []" "decode a = Inr b" by auto
  let ?st1 = "onmessage fadd decode raises now (audio_message a) st"
  have st1: "?st1 = st\<lparr>calls := calls st @
            [SourceStart (node_counter st) now (max (nextStartTimeRef st) now) (duration b)],
        nextStartTimeRef := fadd (max (nextStartTimeRef st) now) (duration b),
        sourcesRef := sourcesRef st @ [\<lparr>node_id = node_counter st, node_buffer = b\<rparr>],
        node_counter := Suc (node_counter st)\<rparr>"
    using Cons.prems(1) a by (rule onmessage_chunk)
  have ctx1: "outputAudioContextRef ?st1 \<noteq> None"
    using Cons.prems(1) by (simp add: st1)
  have len: "length (inflight ?st1) = length (inflight st)" by (simp add: st1)
  have rest: "\<forall>(now, a, b) \<in> set chunks. a \<noteq> [] \<and> decode a = Inr b"
    using Cons.prems(2) by simp
  have ih: "scheduled (calls (run fadd decode raises
             (in_turn (length (inflight ?st1)) (map (\<lambda>(now, a, b). (now, a)) chunks)) ?st1))
           = scheduled (calls ?st1)
             @ spec_schedule fadd (nextStartTimeRef ?st1) (map (\<lambda>(now, a, b). (now, duration b)) chunks)"
    using ctx1 rest by (rule Cons.IH)
  have "run fadd decode raises
          (in_turn (length (inflight st)) (map (\<lambda>(now, a, b). (now, a)) (c # chunks))) st
      = run fadd decode raises
          (in_turn (length (inflight st)) (map (\<lambda>(now, a, b). (now, a)) chunks))
          (run fadd decode raises [Message now (audio_message a), Settled now (length (inflight st))] st)"
    by (simp add: c in_turn_Cons run_def)
  then have "run fadd decode raises
          (in_turn (length (inflight st)) (map (\<lambda>(now, a, b). (now, a)) (c # chunks))) st
      = run fadd decode raises
          (in_turn (length (inflight st)) (map (\<lambda>(now, a, b). (now, a)) chunks)) ?st1"
    by (simp only: onmessage_as_run)
  then show ?case
    using ih unfolding len
    by (simp add: c st1 scheduled_append Let_def max.commute)
qed

lemma spec_schedule_gapless:
  "Suc i < length cs
   \<Longrightarrow> fst (cs ! Suc i) \<le> fadd (fst (spec_schedule fadd nf cs ! i)) (snd (spec_schedule fadd nf cs ! i))
   \<Longrightarrow> fst (spec_schedule fadd nf cs ! Suc i)
         = fadd (fst (spec_schedule fadd nf cs ! i)) (snd (spec_schedule fadd nf cs ! i))"
proof (induction cs arbitrary: nf i)
  case Nil
  then show ?case by simp
next
  case (Cons c cs)
  obtain now d where c: "c = (now, d)" by (cases c)
  show ?case
  proof (cases i)
    case 0
    with Cons.prems obtain c' cs' where cs: "cs = c' # cs'" by (cases cs) auto
    obtain now' d' where c': "c' = (now', d')" by (cases c')
    from Cons.prems 0 show ?thesis by (simp add: c cs c' Let_def max_def)
  next
    case (Suc j)
    with Cons.prems Cons.IH[of j "fadd (max now nf) d"] show ?thesis by (simp add: c Let_def)
  qed
qed

subsection \<open>Scheduling\<close>

lemma sample_decode_chunk20: "sample_decode chunk20 = Inr buffer20"
  by (simp add: sample_decode_def chunk20_def buffer20_def)

lemma sample_decode_chunk500: "sample_decode chunk500 = Inr buffer500"
  by (simp add: sample_decode_def chunk500_def buffer500_def)

lemma sample_decode_chunk10s: "sample_decode chunk10s = Inr buffer10s"
  by (simp add: sample_decode_def chunk10s_def buffer10s_def)

lemma sample_durations:
  "duration buffer20 = 1 / 50" "duration buffer500 = 1 / 2" "duration buffer10s = 10"
  by (simp_all add: buffer20_def buffer500_def buffer10s_def)

lemma sample_nonempty: "chunk20 \<noteq> []" "chunk500 \<noteq> []" "chunk10s \<noteq> []"
  by (simp_all add: chunk20_def chunk500_def chunk10s_def)

lemma opened_eq:
  "opened tracks =
     \<lparr>isMuted = False, inputAudioContextRef = Some 16000, outputAudioContextRef = Some 24000,
      nextStartTimeRef = 0, sourcesRef = [], streamRef = Some tracks, sessionRef = Some (),
      processorRef = Some \<lparr>closure_isMuted = False\<rparr>, sourceNodeRef = Some (),
      requestRef = None, sessionPromise = Pending, reactions = [], microtasks = [],
      inflight = [], node_counter = 0, calls = [ConsoleLog ''Live Session Connected'']\<rparr>"
  by (simp add: opened_def mounted_def connectToLive_def onopen_def initial_session_def Let_def)

lemmas run_simps = run_def onmessage_begin_def audio_message_def interrupt_message_def
  anchor_def settle_def onmessage_resume_def on_interrupted_eq sample_nonempty
  sample_decode_chunk20 sample_decode_chunk500 sample_decode_chunk10s sample_durations Let_def

lemma playing_session_eq:
  "playing_session =
     \<lparr>isMuted = False, inputAudioContextRef = Some 16000, outputAudioContextRef = Some 24000,
      nextStartTimeRef = 2,
      sourcesRef = [\<lparr>node_id = 0, node_buffer = buffer500\<rparr>, \<lparr>node_id = 1, node_buffer = buffer500\<rparr>],
      streamRef = Some [0], sessionRef = Some (),
      processorRef = Some \<lparr>closure_isMuted = False\<rparr>, sourceNodeRef = Some (),
      requestRef = None, sessionPromise = Pending, reactions = [], microtasks = [],
      inflight = [], node_counter = 2,
      calls = [ConsoleLog ''Live Session Connected'', SourceStart 0 1 1 (1 / 2),
               SourceStart 1 (5 / 4) (3 / 2) (1 / 2)]\<rparr>"
  by (simp add: playing_session_def in_turn_def opened_eq run_simps)

lemma racing_session_eq:
  "racing_session =
     \<lparr>isMuted = False, inputAudioContextRef = Some 16000, outputAudioContextRef = Some 24000,
      nextStartTimeRef = 3 / 2,
      sourcesRef = [\<lparr>node_id = 0, node_buffer = buffer500\<rparr>],
      streamRef = Some [0], sessionRef = Some (),
      processorRef = Some \<lparr>closure_isMuted = False\<rparr>, sourceNodeRef = Some (),
      requestRef = None, sessionPromise = Pending, reactions = [], microtasks = [],
      inflight = [chunk500], node_counter = 1,
      calls = [ConsoleLog ''Live Session Connected'', SourceStart 0 1 1 (1 / 2)]\<rparr>"
  by (simp add: racing_session_def opened_eq run_simps)

text \<open>
  C1, as stated, fails: the anchor is raised to the clock when a chunk's message arrives,
  but the buffer is started only when its decoding settles, at the anchor then in force.
  Two chunks of half a second arrive at 1 s and at 1.5 s and both decodings settle at
  1.75 s: the first buffer is started at 1.5 s, which is \<open>max(now, nextFreeTime)\<close>
  neither for the clock of its arrival (1 s) nor for the clock when it is started (1.75 s).
\<close>

theorem enqueue_order_counterexample:
  "scheduled (calls (run (+) sample_decode never_raises
       [Message 1 (audio_message chunk500), Message (3 / 2) (audio_message chunk500),
        Settled (7 / 4) 0, Settled (7 / 4) 0] (opened [0] :: nat live_session)))
     = [(3 / 2, 1 / 2), (2, 1 / 2)]
   \<and> spec_schedule (+) 0 [(1, 1 / 2), (3 / 2, 1 / 2)] = [(1, 1 / 2), (3 / 2, 1 / 2)]
   \<and> spec_schedule (+) 0 [(7 / 4, 1 / 2), (7 / 4, 1 / 2)] = [(7 / 4, 1 / 2), (9 / 4, 1 / 2)]"
  by (simp add: opened_eq run_simps)

text \<open>
  C1, as amended, with the output context open. Consecutive starts: a buffer whose decoding
  settles is started at the anchor and the anchor moves on by its duration (the addition
  of doubles); chunk messages that arrive next make no call and raise the anchor to the
  largest of their clock readings; so the buffer started next has as start time the
  maximum of the end of the one before and of those readings: never before that end, and
  exactly that end (gapless) when those messages arrived no later than it. Chunks handled
  in turn (each decoding settles before the next message arrives): the start times are
  those of the specification's scheduler, \<open>now\<close> being the clock at the arrival; a chunk
  that arrives no later than the end of the buffer before it starts exactly at that end;
  three buffers of 20 ms arriving back to back from \<open>t\<close> start at \<open>t\<close>, at \<open>t\<close> plus 20 ms
  and at that plus 20 ms, the sums being those of doubles.
\<close>

theorem enqueue_schedule:
  fixes chunks :: "(real \<times> string \<times> audio_buffer) list"
  assumes "outputAudioContextRef st \<noteq> None"
  shows
   "(i < length (inflight st) \<and> decode (inflight st ! i) = Inr b1
       \<and> (\<forall>(now, a) \<in> set between. a \<noteq> [])
      \<longrightarrow> (let st1 = settle fadd decode clock1 i st;
               st2 = run fadd decode raises (arrivals between) st1;
               end1 = fadd (nextStartTimeRef st) (duration b1);
               anchor2 = foldl max end1 (map fst between)
           in calls st1 = calls st
                  @ [SourceStart (node_counter st) clock1 (nextStartTimeRef st) (duration b1)]
            \<and> nextStartTimeRef st1 = end1
            \<and> calls st2 = calls st1
            \<and> nextStartTimeRef st2 = anchor2
            \<and> (\<forall>j b2 clock2. j < length (inflight st2) \<and> decode (inflight st2 ! j) = Inr b2
                  \<longrightarrow> calls (settle fadd decode clock2 j st2)
                      = calls st2 @ [SourceStart (Suc (node_counter st)) clock2 anchor2 (duration b2)])
            \<and> end1 \<le> anchor2
            \<and> ((\<forall>(now, a) \<in> set between. now \<le> end1) \<longrightarrow> anchor2 = end1)))
    \<and> ((\<forall>(now, a, b) \<in> set chunks. a \<noteq> [] \<and> decode a = Inr b)
      \<longrightarrow> (let st' = run fadd decode raises
                      (in_turn (length (inflight st)) (map (\<lambda>(now, a, b). (now, a)) chunks)) st;
               sch = drop (length (scheduled (calls st))) (scheduled (calls st'))
           in take (length (scheduled (calls st))) (scheduled (calls st')) = scheduled (calls st)
            \<and> sch = spec_schedule fadd (nextStartTimeRef st)
                      (map (\<lambda>(now, a, b). (now, duration b)) chunks)
            \<and> (\<forall>k. Suc k < length chunks
                     \<and> fst (chunks ! Suc k) \<le> fadd (fst (sch ! k)) (snd (sch ! k))
                   \<longrightarrow> fst (sch ! Suc k) = fadd (fst (sch ! k)) (snd (sch ! k)))
            \<and> (\<forall>t t1 t2 a0 a1 a2.
                   chunks = [(t, a0, buffer20), (t1, a1, buffer20), (t2, a2, buffer20)]
                   \<and> nextStartTimeRef st \<le> t \<and> t1 \<le> fadd t (20 / 1000)
                   \<and> t2 \<le> fadd (fadd t (20 / 1000)) (20 / 1000)
                   \<longrightarrow> sch = [(t, 20 / 1000), (fadd t (20 / 1000), 20 / 1000),
                              (fadd (fadd t (20 / 1000)) (20 / 1000), 20 / 1000)])))"
proof (intro conjI impI)
  assume h: "i < length (inflight st) \<and> decode (inflight st ! i) = Inr b1
       \<and> (\<forall>(now, a) \<in> set between. a \<noteq> [])"
  define st1 where "st1 = settle fadd decode clock1 i st"
  define st2 where "st2 = run fadd decode raises (arrivals between) st1"
  define end1 where "end1 = fadd (nextStartTimeRef st) (duration b1)"
  define anchor2 where "anchor2 = foldl max end1 (map fst between)"
  have s1: "st1 = st\<lparr>inflight := take i (inflight st) @ drop (Suc i) (inflight st),
        calls := calls st @ [SourceStart (node_counter st) clock1 (nextStartTimeRef st) (duration b1)],
        nextStartTimeRef := fadd (nextStartTimeRef st) (duration b1),
        sourcesRef := sourcesRef st @ [\<lparr>node_id = node_counter st, node_buffer = b1\<rparr>],
        node_counter := Suc (node_counter st)\<rparr>"
    unfolding st1_def using h by (intro settle_success) simp_all
  have ctx1: "outputAudioContextRef st1 \<noteq> None" using assms by (simp add: s1)
  have s2: "st2 = st1\<lparr>nextStartTimeRef := foldl max (nextStartTimeRef st1) (map fst between),
        inflight := inflight st1 @ map snd between\<rparr>"
    unfolding st2_def using ctx1 h by (intro run_arrivals) simp_all
  have c1: "calls st1 = calls st
      @ [SourceStart (node_counter st) clock1 (nextStartTimeRef st) (duration b1)]"
    by (simp add: s1)
  have n1: "nextStartTimeRef st1 = end1" by (simp add: s1 end1_def)
  have c2: "calls st2 = calls st1" by (simp add: s2)
  have n2: "nextStartTimeRef st2 = anchor2" by (simp add: s2 n1 anchor2_def)
  have nc: "node_counter st2 = Suc (node_counter st)" by (simp add: s2 s1)
  have next_start: "calls (settle fadd decode clock2 j st2)
      = calls st2 @ [SourceStart (Suc (node_counter st)) clock2 anchor2 (duration b2)]"
    if "j < length (inflight st2) \<and> decode (inflight st2 ! j) = Inr b2" for j b2 clock2
  proof -
    from that have "settle fadd decode clock2 j st2 =
       st2\<lparr>inflight := take j (inflight st2) @ drop (Suc j) (inflight st2),
        calls := calls st2 @ [SourceStart (node_counter st2) clock2 (nextStartTimeRef st2) (duration b2)],
        nextStartTimeRef := fadd (nextStartTimeRef st2) (duration b2),
        sourcesRef := sourcesRef st2 @ [\<lparr>node_id = node_counter st2, node_buffer = b2\<rparr>],
        node_counter := Suc (node_counter st2)\<rparr>"
      by (intro settle_success) simp_all
    then show ?thesis by (simp add: n2 nc)
  qed
  have ge: "end1 \<le> anchor2" unfolding anchor2_def by (rule foldl_max_ge)
  have eq: "anchor2 = end1" if "\<forall>(now, a) \<in> set between. now \<le> end1"
    unfolding anchor2_def using that by (intro foldl_max_bounded) auto
  show "let st1 = settle fadd decode clock1 i st;
               st2 = run fadd decode raises (arrivals between) st1;
               end1 = fadd (nextStartTimeRef st) (duration b1);
               anchor2 = foldl max end1 (map fst between)
           in calls st1 = calls st
                  @ [SourceStart (node_counter st) clock1 (nextStartTimeRef st) (duration b1)]
            \<and> nextStartTimeRef st1 = end1
            \<and> calls st2 = calls st1
            \<and> nextStartTimeRef st2 = anchor2
            \<and> (\<forall>j b2 clock2. j < length (inflight st2) \<and> decode (inflight st2 ! j) = Inr b2
                  \<longrightarrow> calls (settle fadd decode clock2 j st2)
                      = calls st2 @ [SourceStart (Suc (node_counter st)) clock2 anchor2 (duration b2)])
            \<and> end1 \<le> anchor2
            \<and> ((\<forall>(now, a) \<in> set between. now \<le> end1) \<longrightarrow> anchor2 = end1)"
    unfolding Let_def st1_def[symmetric] st2_def[symmetric] end1_def[symmetric]
      anchor2_def[symmetric]
    using c1 n1 c2 n2 next_start ge eq by blast
next
  assume ok: "\<forall>(now, a, b) \<in> set chunks. a \<noteq> [] \<and> decode a = Inr b"
  define st' where "st' = run fadd decode raises
      (in_turn (length (inflight st)) (map (\<lambda>(now, a, b). (now, a)) chunks)) st"
  define cs where "cs = map (\<lambda>(now, a, b). (now, duration b)) chunks"
  define sch where "sch = drop (length (scheduled (calls st))) (scheduled (calls st'))"
  have all: "scheduled (calls st') = scheduled (calls st) @ spec_schedule fadd (nextStartTimeRef st) cs"
    unfolding st'_def cs_def using assms ok by (rule run_in_turn)
  have sch: "sch = spec_schedule fadd (nextStartTimeRef st) cs"
    by (simp add: sch_def all)
  have pre: "take (length (scheduled (calls st))) (scheduled (calls st')) = scheduled (calls st)"
    by (simp add: all)
  have len: "length cs = length chunks" by (simp add: cs_def)
  have gap: "fst (sch ! Suc k) = fadd (fst (sch ! k)) (snd (sch ! k))"
    if "Suc k < length chunks \<and> fst (chunks ! Suc k) \<le> fadd (fst (sch ! k)) (snd (sch ! k))" for k
  proof -
    have "fst (cs ! Suc k) = fst (chunks ! Suc k)"
      using that by (simp add: cs_def split: prod.splits)
    with that show ?thesis unfolding sch
      by (intro spec_schedule_gapless) (simp_all add: len)
  qed
  have three: "sch = [(t, 20 / 1000), (fadd t (20 / 1000), 20 / 1000),
                              (fadd (fadd t (20 / 1000)) (20 / 1000), 20 / 1000)]"
    if "chunks = [(t, a0, buffer20), (t1, a1, buffer20), (t2, a2, buffer20)]
         \<and> nextStartTimeRef st \<le> t \<and> t1 \<le> fadd t (20 / 1000)
         \<and> t2 \<le> fadd (fadd t (20 / 1000)) (20 / 1000)"
    for t t1 t2 a0 a1 a2
  proof -
    from that have m: "max t (nextStartTimeRef st) = t"
      "max t1 (fadd t (20 / 1000)) = fadd t (20 / 1000)"
      "max t2 (fadd (fadd t (20 / 1000)) (20 / 1000)) = fadd (fadd t (20 / 1000)) (20 / 1000)"
      by (simp_all add: max_def)
    from that have "cs = [(t, 20 / 1000), (t1, 20 / 1000), (t2, 20 / 1000)]"
      by (simp add: cs_def buffer20_def)
    then show ?thesis
      unfolding sch by (simp only: spec_schedule.simps Let_def m)
  qed
  show "let st' = run fadd decode raises
                      (in_turn (length (inflight st)) (map (\<lambda>(now, a, b). (now, a)) chunks)) st;
               sch = drop (length (scheduled (calls st))) (scheduled (calls st'))
           in take (length (scheduled (calls st))) (scheduled (calls st')) = scheduled (calls st)
            \<and> sch = spec_schedule fadd (nextStartTimeRef st)
                      (map (\<lambda>(now, a, b). (now, duration b)) chunks)
            \<and> (\<forall>k. Suc k < length chunks
                     \<and> fst (chunks ! Suc k) \<le> fadd (fst (sch ! k)) (snd (sch ! k))
                   \<longrightarrow> fst (sch ! Suc k) = fadd (fst (sch ! k)) (snd (sch ! k)))
            \<and> (\<forall>t t1 t2 a0 a1 a2.
                   chunks = [(t, a0, buffer20), (t1, a1, buffer20), (t2, a2, buffer20)]
                   \<and> nextStartTimeRef st \<le> t \<and> t1 \<le> fadd t (20 / 1000)
                   \<and> t2 \<le> fadd (fadd t (20 / 1000)) (20 / 1000)
                   \<longrightarrow> sch = [(t, 20 / 1000), (fadd t (20 / 1000), 20 / 1000),
                              (fadd (fadd t (20 / 1000)) (20 / 1000), 20 / 1000)])"
    unfolding Let_def st'_def[symmetric] sch_def[symmetric] cs_def[symmetric]
    using pre sch gap three by blast
qed

theorem enqueue_schedule_witness:
  "outputAudioContextRef racing_session \<noteq> None
   \<and> 0 < length (inflight racing_session)
   \<and> sample_decode (inflight racing_session ! 0) = Inr buffer500
   \<and> chunk500 \<noteq> [] \<and> (7 / 4 :: real) \<le> 3 / 2 + 1 / 2
   \<and> calls (run (+) sample_decode never_raises
        [Settled (3 / 2) 0, Message (7 / 4) (audio_message chunk500), Settled (7 / 4) 0]
        racing_session)
      = [ConsoleLog ''Live Session Connected'', SourceStart 0 1 1 (1 / 2),
         SourceStart 1 (3 / 2) (3 / 2) (1 / 2), SourceStart 2 (7 / 4) 2 (1 / 2)]
   \<and> outputAudioContextRef (opened [0] :: nat live_session) \<noteq> None
   \<and> chunk20 \<noteq> [] \<and> sample_decode chunk20 = Inr buffer20
   \<and> scheduled (calls (run (+) sample_decode never_raises
        (in_turn 0 [(1, chunk20), (101 / 100, chunk20), (103 / 100, chunk20)])
        (opened [0] :: nat live_session)))
     = [(1, 1 / 50), (51 / 50, 1 / 50), (52 / 50, 1 / 50)]"
proof -
  have ctx: "outputAudioContextRef racing_session \<noteq> None"
    by (simp add: racing_session_eq)
  have pre: "0 < length (inflight racing_session)
      \<and> sample_decode (inflight racing_session ! 0) = Inr buffer500
      \<and> (\<forall>(now, a) \<in> set [(7 / 4 :: real, chunk500)]. a \<noteq> [])"
    by (simp add: racing_session_eq sample_decode_chunk500 sample_nonempty)
  let ?st1 = "settle (+) sample_decode (3 / 2) 0 racing_session"
  let ?st2 = "run (+) sample_decode never_raises (arrivals [(7 / 4, chunk500)]) ?st1"
  note th = enqueue_schedule[OF ctx, where i = 0 and decode = sample_decode and ?b1.0 = buffer500
      and between = "[(7 / 4, chunk500)]" and fadd = "(+)" and ?clock1.0 = "3 / 2"
      and raises = never_raises and chunks = "[]", unfolded Let_def]
  note law = th[THEN conjunct1, THEN mp, OF pre]
  note c1 = law[THEN conjunct1]
  note c2 = law[THEN conjunct2, THEN conjunct2, THEN conjunct1]
  note nxt = law[THEN conjunct2, THEN conjunct2, THEN conjunct2, THEN conjunct2, THEN conjunct1]
  have inf2: "0 < length (inflight ?st2) \<and> sample_decode (inflight ?st2 ! 0) = Inr buffer500"
    by (simp add: arrivals_def racing_session_eq run_simps)
  note c3 = nxt[rule_format, of 0 buffer500 "7 / 4", OF inf2]
  have run_eq: "run (+) sample_decode never_raises
        [Settled (3 / 2) 0, Message (7 / 4) (audio_message chunk500), Settled (7 / 4) 0]
        racing_session = settle (+) sample_decode (7 / 4) 0 ?st2"
    by (simp add: arrivals_def run_def)
  have first: "calls (run (+) sample_decode never_raises
        [Settled (3 / 2) 0, Message (7 / 4) (audio_message chunk500), Settled (7 / 4) 0]
        racing_session)
      = [ConsoleLog ''Live Session Connected'', SourceStart 0 1 1 (1 / 2),
         SourceStart 1 (3 / 2) (3 / 2) (1 / 2), SourceStart 2 (7 / 4) 2 (1 / 2)]"
    unfolding run_eq c3 c2 c1
    by (simp add: racing_session_eq sample_durations)
  have ctx0: "outputAudioContextRef (opened [0] :: nat live_session) \<noteq> None"
    by (simp add: opened_eq)
  define cks where "cks = [(1::real, chunk20, buffer20), (101 / 100, chunk20, buffer20),
    (103 / 100, chunk20, buffer20)]"
  have ok: "\<forall>(now, a, b) \<in> set cks. a \<noteq> [] \<and> sample_decode a = Inr b"
    by (simp add: cks_def sample_nonempty sample_decode_chunk20)
  have tr: "scheduled (calls (opened [0] :: nat live_session)) = []"
    by (simp add: opened_eq)
  have inf0: "length (inflight (opened [0] :: nat live_session)) = 0"
    by (simp add: opened_eq)
  have nf0: "nextStartTimeRef (opened [0] :: nat live_session) = 0"
    by (simp add: opened_eq)
  note th2 = enqueue_schedule[OF ctx0, where decode = sample_decode and fadd = "(+)"
      and raises = never_raises and chunks = cks and between = "[]" and i = 0,
      unfolded Let_def tr inf0 nf0]
  note seq = th2[THEN conjunct2, THEN mp, OF ok]
  note sch = seq[THEN conjunct2, THEN conjunct1]
  from sch have second: "scheduled (calls (run (+) sample_decode never_raises
        (in_turn 0 [(1, chunk20), (101 / 100, chunk20), (103 / 100, chunk20)])
        (opened [0] :: nat live_session)))
     = [(1, 1 / 50), (51 / 50, 1 / 50), (52 / 50, 1 / 50)]"
    by (simp add: cks_def sample_durations Let_def)
  from ctx pre first ctx0 second show ?thesis
    by (simp add: sample_nonempty sample_decode_chunk20)
qed

subsection \<open>No overlap\<close>

lemma no_overlap_append:
  "no_overlap fadd ep (xs @ ys)
     = (no_overlap fadd ep xs \<and> no_overlap fadd (epoch_after ep xs) ys)"
  by (induction fadd ep xs rule: no_overlap.induct) auto

lemma epoch_after_append: "epoch_after ep (xs @ ys) = epoch_after (epoch_after ep xs) ys"
  by (induction ep xs rule: epoch_after.induct) auto

lemma epoch_after_keeps:
  "x \<in> set ep \<Longrightarrow> ConsoleLog ''Interrupted'' \<notin> set ys \<Longrightarrow> x \<in> set (epoch_after ep ys)"
  by (induction ep ys rule: epoch_after.induct) auto

lemma no_overlap_pair:
  assumes "no_overlap fadd ep (xs @ SourceStart a c s d # ys @ SourceStart b c' s' d' # zs)"
    and "ConsoleLog ''Interrupted'' \<notin> set ys"
  shows "fadd s d \<le> s'"
proof -
  let ?ep1 = "epoch_after ep (xs @ SourceStart a c s d # ys)"
  have "xs @ SourceStart a c s d # ys @ SourceStart b c' s' d' # zs
        = (xs @ SourceStart a c s d # ys) @ (SourceStart b c' s' d' # zs)" by simp
  with assms(1) have "no_overlap fadd ?ep1 (SourceStart b c' s' d' # zs)"
    by (simp only: no_overlap_append)
  then have all: "list_all (\<lambda>(s0, d0). fadd s0 d0 \<le> s') ?ep1" by simp
  have "?ep1 = epoch_after (epoch_after ep xs @ [(s, d)]) ys"
    by (simp add: epoch_after_append)
  moreover have "(s, d) \<in> set (epoch_after (epoch_after ep xs @ [(s, d)]) ys)"
    using assms(2) by (intro epoch_after_keeps) simp_all
  ultimately have "(s, d) \<in> set ?ep1" by simp
  with all show ?thesis by (auto simp: list_all_iff)
qed

lemma no_overlap_stops: "no_overlap fadd ep (map SourceStop ns) = True"
  by (induction ns) auto

lemma epoch_after_stops: "epoch_after ep (map SourceStop ns) = ep"
  by (induction ns) auto

lemma sched_inv_interrupted: "sched_inv fadd st \<Longrightarrow> sched_inv fadd (on_interrupted raises st)"
  by (simp add: sched_inv_def on_interrupted_eq no_overlap_append epoch_after_append
      no_overlap_stops epoch_after_stops)

lemma sched_inv_anchor: "sched_inv fadd st \<Longrightarrow> sched_inv fadd ((anchor now st)\<lparr>inflight := xs\<rparr>)"
  by (auto simp: sched_inv_def anchor_def list_all_iff)

lemma sched_inv_begin: "sched_inv fadd st \<Longrightarrow> sched_inv fadd (onmessage_begin raises now m st)"
  by (simp add: onmessage_begin_def sched_inv_interrupted sched_inv_anchor split: option.splits)

lemma sched_inv_inflight: "sched_inv fadd (st\<lparr>inflight := xs\<rparr>) = sched_inv fadd st"
  by (simp add: sched_inv_def)

lemma sched_inv_resume:
  assumes "sched_inv fadd st"
    and grow: "\<forall>x d. 0 \<le> d \<longrightarrow> x \<le> fadd x d"
    and dur: "\<forall>b. outcome = Inr b \<longrightarrow> 0 \<le> duration b"
  shows "sched_inv fadd (onmessage_resume fadd clock outcome st)"
proof (cases outcome)
  case (Inl e)
  with assms(1) show ?thesis
    by (simp add: onmessage_resume_def sched_inv_def no_overlap_append epoch_after_append)
next
  case (Inr b)
  with dur have "0 \<le> duration b" by simp
  with grow have up: "nextStartTimeRef st \<le> fadd (nextStartTimeRef st) (duration b)" by simp
  from assms(1) have old: "\<forall>(s0, d0) \<in> set (epoch_after [] (calls st)). fadd s0 d0 \<le> nextStartTimeRef st"
    by (simp add: sched_inv_def list_all_iff)
  with up have "\<forall>(s0, d0) \<in> set (epoch_after [] (calls st)).
      fadd s0 d0 \<le> fadd (nextStartTimeRef st) (duration b)"
    by fastforce
  with assms(1) old show ?thesis
    by (simp add: Inr onmessage_resume_def sched_inv_def no_overlap_append epoch_after_append
        Let_def list_all_iff)
qed

lemma sched_inv_settle:
  assumes "sched_inv fadd st"
    and "\<forall>x d. 0 \<le> d \<longrightarrow> x \<le> fadd x d"
    and "\<forall>a b. decode a = Inr b \<longrightarrow> 0 \<le> duration b"
  shows "sched_inv fadd (settle fadd decode clock i st)"
proof (cases "i < length (inflight st)")
  case True
  have "sched_inv fadd (st\<lparr>inflight := take i (inflight st) @ drop (Suc i) (inflight st)\<rparr>)"
    using assms(1) by (simp add: sched_inv_inflight)
  moreover have "\<forall>b. decode (inflight st ! i) = Inr b \<longrightarrow> 0 \<le> duration b"
    using assms(3) by blast
  ultimately show ?thesis
    using True assms(2) by (simp add: settle_def sched_inv_resume)
next
  case False
  with assms(1) show ?thesis by (simp add: settle_def)
qed

lemma sched_inv_onended: "sched_inv fadd st \<Longrightarrow> sched_inv fadd (onended n st)"
  by (simp add: onended_def sched_inv_def)

lemma sched_inv_step:
  assumes "sched_inv fadd st"
    and "\<forall>x d. 0 \<le> d \<longrightarrow> x \<le> fadd x d"
    and "\<forall>a b. decode a = Inr b \<longrightarrow> 0 \<le> duration b"
  shows "sched_inv fadd (step fadd decode raises st e)"
  using assms by (cases e) (simp_all add: sched_inv_begin sched_inv_settle sched_inv_onended)

lemma sched_inv_run:
  assumes "sched_inv fadd st"
    and "\<forall>x d. 0 \<le> d \<longrightarrow> x \<le> fadd x d"
    and "\<forall>a b. decode a = Inr b \<longrightarrow> 0 \<le> duration b"
  shows "sched_inv fadd (run fadd decode raises events st)"
  using assms(1)
proof (induction events arbitrary: st)
  case Nil
  then show ?case by (simp add: run_def)
next
  case (Cons e events)
  have "sched_inv fadd (step fadd decode raises st e)"
    using Cons.prems assms(2,3) by (rule sched_inv_step)
  then have "sched_inv fadd (run fadd decode raises events (step fadd decode raises st e))"
    by (rule Cons.IH)
  then show ?case by (simp add: run_def)
qed

lemma sched_inv_opened: "sched_inv fadd (opened tracks)"
  by (simp add: sched_inv_def opened_eq)

text \<open>
  C2, as stated, fails in its conclusion: a buffer whose start time is past when it is
  started sounds at once. A chunk of half a second arrives at 1 s; an interruption is
  handled at 2 s and the chunk's decoding settles then, so its buffer is started with
  start time 0 and sounds from 2 s. A second chunk arrives at 2.25 s and is started
  at once. No interruption lies between the two starts, and at 2.25 s both buffers sound.
\<close>

theorem sounding_overlap_counterexample:
  "calls (run (+) sample_decode never_raises
       [Message 1 (audio_message chunk500), Message 2 interrupt_message, Settled 2 0,
        Message (9 / 4) (audio_message chunk500), Settled (9 / 4) 0]
       (opened [0] :: nat live_session))
     = [ConsoleLog ''Live Session Connected'', ConsoleLog ''Interrupted'',
        SourceStart 0 2 0 (1 / 2), SourceStart 1 (9 / 4) (9 / 4) (1 / 2)]
   \<and> sounds (+) 2 0 (1 / 2) (9 / 4) \<and> sounds (+) (9 / 4) (9 / 4) (1 / 2) (9 / 4)"
  by (simp add: opened_eq run_simps sounds_def)

text \<open>
  C2, as amended. Provided that adding a non-negative duration does not decrease a time
  (as the addition of doubles does not) and that decoded buffers have non-negative
  durations: in every run of the playback callbacks from the opened session (messages with
  audio or with an interruption, decodings settling in any order and at any clock reading,
  sources ending), two buffers started with no interruption between them have scheduled
  ranges that do not overlap, the later start time being at least the earlier start time
  plus the earlier duration; and when the earlier of the two was started no later than
  its start time, at no instant do both sound.
\<close>

theorem scheduled_ranges_never_overlap:
  fixes xs :: "'p effect list"
  assumes "\<forall>x d. 0 \<le> d \<longrightarrow> x \<le> fadd x d"
    and "\<forall>a b. decode a = Inr b \<longrightarrow> 0 \<le> duration b"
    and "calls (run fadd decode raises events (opened tracks))
           = xs @ SourceStart a c s d # ys @ SourceStart b c' s' d' # zs"
    and "ConsoleLog ''Interrupted'' \<notin> set ys"
  shows "fadd s d \<le> s'
     \<and> (c \<le> s \<longrightarrow> (\<forall>instant. \<not> (sounds fadd c s d instant \<and> sounds fadd c' s' d' instant)))"
proof -
  have "sched_inv fadd (run fadd decode raises events (opened tracks :: 'p live_session))"
    using sched_inv_opened assms(1,2) by (rule sched_inv_run)
  then have "no_overlap fadd [] (calls (run fadd decode raises events (opened tracks :: 'p live_session)))"
    by (simp add: sched_inv_def)
  then have "no_overlap fadd [] (xs @ SourceStart a c s d # ys @ SourceStart b c' s' d' # zs)"
    unfolding assms(3) .
  then have le: "fadd s d \<le> s'" using assms(4) by (rule no_overlap_pair)
  have "\<not> (sounds fadd c s d instant \<and> sounds fadd c' s' d' instant)" if "c \<le> s" for instant
  proof
    assume both: "sounds fadd c s d instant \<and> sounds fadd c' s' d' instant"
    from that have "max s c = s" by simp
    with both have "instant < fadd s d" by (simp add: sounds_def)
    moreover from both have "s' \<le> instant" by (simp add: sounds_def)
    ultimately show False using le by simp
  qed
  with le show ?thesis by blast
qed

theorem scheduled_ranges_never_overlap_witness:
  "calls (run (+) sample_decode never_raises
       [Message 1 (audio_message chunk500), Message (5 / 4) (audio_message chunk500),
        Settled (5 / 4) 1, Settled (5 / 4) 0] (opened [0] :: nat live_session))
     = [ConsoleLog ''Live Session Connected''] @ SourceStart 0 (5 / 4) (5 / 4) (1 / 2) # []
         @ SourceStart 1 (5 / 4) (7 / 4) (1 / 2) # []
   \<and> ConsoleLog ''Interrupted'' \<notin> set ([] :: nat effect list)
   \<and> (5 / 4 :: real) \<le> 5 / 4
   \<and> (5 / 4 :: real) + 1 / 2 \<le> 7 / 4
   \<and> \<not> (sounds (+) (5 / 4) (5 / 4) (1 / 2) (3 / 2) \<and> sounds (+) (5 / 4) (7 / 4) (1 / 2) (3 / 2))"
proof -
  have grow: "\<forall>x d. (0::real) \<le> d \<longrightarrow> x \<le> x + d" by simp
  have dur: "\<forall>a b. sample_decode a = Inr b \<longrightarrow> 0 \<le> duration b"
    by (auto simp: sample_decode_def split: if_splits)
  have tr: "calls (run (+) sample_decode never_raises
       [Message 1 (audio_message chunk500), Message (5 / 4) (audio_message chunk500),
        Settled (5 / 4) 1, Settled (5 / 4) 0] (opened [0] :: nat live_session))
     = [ConsoleLog ''Live Session Connected''] @ SourceStart 0 (5 / 4) (5 / 4) (1 / 2) # []
         @ SourceStart 1 (5 / 4) (7 / 4) (1 / 2) # []"
    by (simp add: opened_eq run_simps)
  have no: "ConsoleLog ''Interrupted'' \<notin> set ([] :: nat effect list)" by simp
  note th = scheduled_ranges_never_overlap[OF grow dur tr no]
  note le = th[THEN conjunct1]
  have intime: "(5 / 4 :: real) \<le> 5 / 4" by simp
  note apart = th[THEN conjunct2, THEN mp, OF intime, THEN spec, of "3 / 2"]
  from tr le apart show ?thesis by simp
qed

subsection \<open>Interruption and decode failure\<close>







subsection \<open>Interruption against a decoding in flight\<close>

lemma fresh_inv_step: "fresh_inv st \<Longrightarrow> fresh_inv (step fadd decode raises st e)"
proof (cases e)
  case (Message now m)
  assume "fresh_inv st"
  then show ?thesis
    by (simp add: Message fresh_inv_def onmessage_begin_def on_interrupted_eq anchor_def
        split: option.splits)
next
  case (Settled clock i)
  assume "fresh_inv st"
  then show ?thesis
    by (cases "decode (inflight st ! i)")
      (auto simp: Settled fresh_inv_def settle_def onmessage_resume_def Let_def list_all_iff
        less_Suc_eq)
next
  case (Ended n)
  assume "fresh_inv st"
  then show ?thesis by (simp add: Ended fresh_inv_def onended_def list_all_iff)
qed

lemma fresh_inv_run: "fresh_inv st \<Longrightarrow> fresh_inv (run fadd decode raises events st)"
  unfolding run_def by (induction events arbitrary: st) (simp_all add: fresh_inv_step)

lemma fresh_inv_opened: "fresh_inv (opened tracks)"
  by (simp add: fresh_inv_def opened_eq)

text \<open>What a run adds: the nodes it starts and the nodes it puts into the set are new.\<close>

lemma started_append: "started (xs @ ys) = started xs @ started ys"
  by (induction xs rule: started.induct) auto

lemma started_stops: "started (map SourceStop ns) = []"
  by (induction ns) auto

lemma started_member: "SourceStart n c s d \<in> set tr \<Longrightarrow> n \<in> set (started tr)"
  by (induction tr rule: started.induct) auto

lemma step_newer:
  "node_counter st \<le> node_counter (step fadd decode raises st e)
   \<and> (\<forall>src \<in> set (sourcesRef (step fadd decode raises st e)).
         src \<in> set (sourcesRef st) \<or> node_counter st \<le> node_id src)
   \<and> (\<exists>new. calls (step fadd decode raises st e) = calls st @ new
         \<and> (\<forall>n \<in> set (started new). node_counter st \<le> n))"
proof (cases e)
  case (Message now m)
  show ?thesis
    by (auto simp: Message onmessage_begin_def on_interrupted_eq anchor_def started_stops
        split: option.splits)
next
  case (Settled clock i)
  show ?thesis
    by (cases "decode (inflight st ! i)")
      (auto simp: Settled settle_def onmessage_resume_def Let_def)
next
  case (Ended n)
  show ?thesis by (auto simp: Ended onended_def)
qed

lemma run_newer:
  "node_counter st \<le> node_counter (run fadd decode raises events st)
   \<and> (\<forall>src \<in> set (sourcesRef (run fadd decode raises events st)).
         src \<in> set (sourcesRef st) \<or> node_counter st \<le> node_id src)
   \<and> (\<exists>new. calls (run fadd decode raises events st) = calls st @ new
         \<and> (\<forall>n \<in> set (started new). node_counter st \<le> n))"
proof (induction events arbitrary: st)
  case Nil
  show ?case by (simp add: run_def)
next
  case (Cons e events)
  let ?s1 = "step fadd decode raises st e"
  let ?s2 = "run fadd decode raises events ?s1"
  note a = step_newer[of st fadd decode raises e]
  note b = Cons.IH[of ?s1]
  from a obtain new1 where n1: "calls ?s1 = calls st @ new1"
    "\<forall>n \<in> set (started new1). node_counter st \<le> n" by blast
  from b obtain new2 where n2: "calls ?s2 = calls ?s1 @ new2"
    "\<forall>n \<in> set (started new2). node_counter ?s1 \<le> n" by blast
  from a have le1: "node_counter st \<le> node_counter ?s1" by blast
  from b have le2: "node_counter ?s1 \<le> node_counter ?s2" by blast
  have c: "calls ?s2 = calls st @ (new1 @ new2)" by (simp add: n1 n2)
  have d: "\<forall>n \<in> set (started (new1 @ new2)). node_counter st \<le> n"
    using n1(2) n2(2) le1 by (auto simp: started_append intro: order_trans)
  have s: "\<forall>src \<in> set (sourcesRef ?s2). src \<in> set (sourcesRef st) \<or> node_counter st \<le> node_id src"
  proof
    fix src assume "src \<in> set (sourcesRef ?s2)"
    with b have "src \<in> set (sourcesRef ?s1) \<or> node_counter ?s1 \<le> node_id src" by blast
    with a le1 show "src \<in> set (sourcesRef st) \<or> node_counter st \<le> node_id src"
      by (auto intro: order_trans)
  qed
  have le: "node_counter st \<le> node_counter ?s2" using le1 le2 by (rule order_trans)
  have r: "run fadd decode raises (e # events) st = ?s2" by (simp add: run_def)
  from le s c d show ?case unfolding r by blast
qed

text \<open>
  C4, as stated, fails: nothing cancels a callback that is suspended in its decoding when
  the interruption is handled. A chunk arrives at 1 s, the interruption is handled at 2 s
  while the chunk is still being decoded, then the decoding settles: the buffer is started
  after the interruption (with start time 0, the anchor as reset) and joins the set.
\<close>

theorem interrupt_race_counterexample:
  "calls (run (+) sample_decode never_raises
       [Message 1 (audio_message chunk500), Message 2 interrupt_message, Settled 2 0]
       (opened [0] :: nat live_session))
     = [ConsoleLog ''Live Session Connected'', ConsoleLog ''Interrupted'',
        SourceStart 0 2 0 (1 / 2)]
   \<and> map node_id (sourcesRef (run (+) sample_decode never_raises
       [Message 1 (audio_message chunk500), Message 2 interrupt_message, Settled 2 0]
       (opened [0] :: nat live_session))) = [0]"
  by (simp add: opened_eq run_simps)

text \<open>
  C4, as amended. At any point of a run of the playback callbacks from the opened session,
  handling an Interrupted event calls \<open>stop\<close> on every source of the set (a stop that
  raises is skipped), empties the set and leaves the decodings in flight as they are.
  Whatever happens afterwards, no source that was in the set at the interruption is put
  into the set again or started again. A decoding in flight is not cancelled: when it
  succeeds right after the interruption, its buffer is started with start time 0 and is
  the only member of the set.
\<close>

theorem interrupt_spares_inflight:
  "let st = run fadd decode raises events (opened tracks);
       st1 = step fadd decode raises st (Message now interrupt_message)
   in calls st1 = calls st @ ConsoleLog ''Interrupted''
          # map SourceStop (filter (\<lambda>n. \<not> raises n) (map node_id (sourcesRef st)))
    \<and> sourcesRef st1 = []
    \<and> inflight st1 = inflight st
    \<and> (\<forall>later source. source \<in> set (sourcesRef st)
          \<longrightarrow> (let st2 = run fadd decode raises later st1
               in source \<notin> set (sourcesRef st2)
                \<and> (\<forall>c s d. SourceStart (node_id source) c s d
                      \<notin> set (drop (length (calls st1)) (calls st2)))))
    \<and> (\<forall>i b clock. i < length (inflight st) \<and> decode (inflight st ! i) = Inr b
          \<longrightarrow> (let st2 = step fadd decode raises st1 (Settled clock i)
               in calls st2 = calls st1 @ [SourceStart (node_counter st) clock 0 (duration b)]
                \<and> map node_id (sourcesRef st2) = [node_counter st]))"
proof -
  define st :: "'a live_session" where "st = run fadd decode raises events (opened tracks)"
  define st1 where "st1 = step fadd decode raises st (Message now interrupt_message)"
  have e: "st1 = st\<lparr>calls := calls st @ ConsoleLog ''Interrupted''
              # map SourceStop (filter (\<lambda>n. \<not> raises n) (map node_id (sourcesRef st))),
        sourcesRef := [], nextStartTimeRef := 0\<rparr>"
    by (simp add: st1_def onmessage_begin_def interrupt_message_def on_interrupted_eq)
  have fresh: "fresh_inv st"
    unfolding st_def by (rule fresh_inv_run) (rule fresh_inv_opened)
  have never: "source \<notin> set (sourcesRef (run fadd decode raises later st1))
        \<and> (\<forall>c s d. SourceStart (node_id source) c s d
              \<notin> set (drop (length (calls st1)) (calls (run fadd decode raises later st1))))"
    if src: "source \<in> set (sourcesRef st)" for later source
  proof -
    from fresh src have old: "node_id source < node_counter st1"
      by (simp add: fresh_inv_def list_all_iff e)
    note n = run_newer[of st1 fadd decode raises later]
    from n obtain new where new: "calls (run fadd decode raises later st1) = calls st1 @ new"
      "\<forall>n \<in> set (started new). node_counter st1 \<le> n" by blast
    from n have "\<forall>src \<in> set (sourcesRef (run fadd decode raises later st1)).
        node_counter st1 \<le> node_id src"
      by (simp add: e)
    with old have 1: "source \<notin> set (sourcesRef (run fadd decode raises later st1))" by auto
    have 2: "\<forall>c s d. SourceStart (node_id source) c s d
              \<notin> set (drop (length (calls st1)) (calls (run fadd decode raises later st1)))"
    proof (intro allI notI)
      fix c s d
      assume "SourceStart (node_id source) c s d
              \<in> set (drop (length (calls st1)) (calls (run fadd decode raises later st1)))"
      then have "SourceStart (node_id source) c s d \<in> set new" by (simp add: new(1))
      then have "node_id source \<in> set (started new)" by (rule started_member)
      with new(2) have "node_counter st1 \<le> node_id source" by blast
      with old show False by simp
    qed
    from 1 2 show ?thesis by blast
  qed
  have settles: "calls (step fadd decode raises st1 (Settled clock i))
        = calls st1 @ [SourceStart (node_counter st) clock 0 (duration b)]
      \<and> map node_id (sourcesRef (step fadd decode raises st1 (Settled clock i))) = [node_counter st]"
    if "i < length (inflight st) \<and> decode (inflight st ! i) = Inr b" for i b clock
    using that by (simp add: e settle_def onmessage_resume_def Let_def)
  show ?thesis
    unfolding Let_def st_def[symmetric] st1_def[symmetric]
    using never settles by (simp add: e)
qed

theorem interrupt_spares_inflight_witness:
  "calls (step (+) sample_decode never_raises racing_session (Message 3 interrupt_message))
     = [ConsoleLog ''Live Session Connected'', SourceStart 0 1 1 (1 / 2),
        ConsoleLog ''Interrupted'', SourceStop 0]
   \<and> \<lparr>node_id = 0, node_buffer = buffer500\<rparr> \<in> set (sourcesRef racing_session)
   \<and> \<lparr>node_id = 0, node_buffer = buffer500\<rparr>
       \<notin> set (sourcesRef (run (+) sample_decode never_raises [Settled 3 0]
                 (step (+) sample_decode never_raises racing_session (Message 3 interrupt_message))))
   \<and> 0 < length (inflight racing_session)
   \<and> sample_decode (inflight racing_session ! 0) = Inr buffer500
   \<and> calls (step (+) sample_decode never_raises
        (step (+) sample_decode never_raises racing_session (Message 3 interrupt_message))
        (Settled 3 0))
      = [ConsoleLog ''Live Session Connected'', SourceStart 0 1 1 (1 / 2),
         ConsoleLog ''Interrupted'', SourceStop 0, SourceStart 1 3 0 (1 / 2)]"
proof -
  let ?st1 = "step (+) sample_decode never_raises racing_session (Message 3 interrupt_message)"
  note th = interrupt_spares_inflight[where ?'a = nat and fadd = "(+)" and decode = sample_decode
      and raises = never_raises and tracks = "[0]" and now = 3
      and events = "[Message 1 (audio_message chunk500), Settled 1 0,
          Message (5 / 4) (audio_message chunk500)]",
      unfolded Let_def, folded racing_session_def]
  note stops = th[THEN conjunct1]
  have src: "\<lparr>node_id = 0, node_buffer = buffer500\<rparr> \<in> set (sourcesRef racing_session)"
    by (simp add: racing_session_eq)
  note never = th[THEN conjunct2, THEN conjunct2, THEN conjunct2, THEN conjunct1, rule_format,
      where later = "[Settled 3 0]", OF src, THEN conjunct1]
  have pre: "0 < length (inflight racing_session)
      \<and> sample_decode (inflight racing_session ! 0) = Inr buffer500"
    by (simp add: racing_session_eq sample_decode_chunk500)
  note settled = th[THEN conjunct2, THEN conjunct2, THEN conjunct2, THEN conjunct2, rule_format,
      where i = 0 and b = buffer500 and clock = 3, OF pre, THEN conjunct1]
  have a: "calls ?st1 = [ConsoleLog ''Live Session Connected'', SourceStart 0 1 1 (1 / 2),
        ConsoleLog ''Interrupted'', SourceStop 0]"
    unfolding stops by (simp add: racing_session_eq never_raises_def)
  have b: "calls (step (+) sample_decode never_raises ?st1 (Settled 3 0))
      = [ConsoleLog ''Live Session Connected'', SourceStart 0 1 1 (1 / 2),
         ConsoleLog ''Interrupted'', SourceStop 0, SourceStart 1 3 0 (1 / 2)]"
    unfolding settled a by (simp add: racing_session_eq sample_durations)
  from a src never pre b show ?thesis by simp
qed

section \<open>Tear-down\<close>

lemma release_processor_fields:
  "processorRef (release_processor st) = None"
  "sourceNodeRef (release_processor st) = sourceNodeRef st"
  "streamRef (release_processor st) = streamRef st"
  "inputAudioContextRef (release_processor st) = inputAudioContextRef st"
  "outputAudioContextRef (release_processor st) = outputAudioContextRef st"
  "sessionRef (release_processor st) = sessionRef st"
  "requestRef (release_processor st) = requestRef st"
  "sourcesRef (release_processor st) = sourcesRef st"
  "sessionPromise (release_processor st) = sessionPromise st"
  "reactions (release_processor st) = reactions st"
  "microtasks (release_processor st) = microtasks st"
  "calls (release_processor st) = calls st @ (if processorRef st = None then [] else [ProcessorDisconnect])"
  by (cases "processorRef st"; simp add: release_processor_def)+

lemma release_sourceNode_fields:
  "processorRef (release_sourceNode st) = processorRef st"
  "sourceNodeRef (release_sourceNode st) = None"
  "streamRef (release_sourceNode st) = streamRef st"
  "inputAudioContextRef (release_sourceNode st) = inputAudioContextRef st"
  "outputAudioContextRef (release_sourceNode st) = outputAudioContextRef st"
  "sessionRef (release_sourceNode st) = sessionRef st"
  "requestRef (release_sourceNode st) = requestRef st"
  "sourcesRef (release_sourceNode st) = sourcesRef st"
  "sessionPromise (release_sourceNode st) = sessionPromise st"
  "reactions (release_sourceNode st) = reactions st"
  "microtasks (release_sourceNode st) = microtasks st"
  "calls (release_sourceNode st) = calls st @ (if sourceNodeRef st = None then [] else [SourceNodeDisconnect])"
  by (cases "sourceNodeRef st"; simp add: release_sourceNode_def)+

lemma release_stream_fields:
  "processorRef (release_stream st) = processorRef st"
  "sourceNodeRef (release_stream st) = sourceNodeRef st"
  "streamRef (release_stream st) = None"
  "inputAudioContextRef (release_stream st) = inputAudioContextRef st"
  "outputAudioContextRef (release_stream st) = outputAudioContextRef st"
  "sessionRef (release_stream st) = sessionRef st"
  "requestRef (release_stream st) = requestRef st"
  "sourcesRef (release_stream st) = sourcesRef st"
  "sessionPromise (release_stream st) = sessionPromise st"
  "reactions (release_stream st) = reactions st"
  "microtasks (release_stream st) = microtasks st"
  "calls (release_stream st) = calls st @ (case streamRef st of None \<Rightarrow> [] | Some tracks \<Rightarrow> map TrackStop tracks)"
  by (cases "streamRef st"; simp add: release_stream_def)+

lemma release_input_fields:
  "processorRef (release_input st) = processorRef st"
  "sourceNodeRef (release_input st) = sourceNodeRef st"
  "streamRef (release_input st) = streamRef st"
  "inputAudioContextRef (release_input st) = None"
  "outputAudioContextRef (release_input st) = outputAudioContextRef st"
  "sessionRef (release_input st) = sessionRef st"
  "requestRef (release_input st) = requestRef st"
  "sourcesRef (release_input st) = sourcesRef st"
  "sessionPromise (release_input st) = sessionPromise st"
  "reactions (release_input st) = reactions st"
  "microtasks (release_input st) = microtasks st"
  "calls (release_input st) = calls st @ (if inputAudioContextRef st = None then [] else [InputContextClose])"
  by (cases "inputAudioContextRef st"; simp add: release_input_def)+

lemma release_output_fields:
  "processorRef (release_output raises st) = processorRef st"
  "sourceNodeRef (release_output raises st) = sourceNodeRef st"
  "streamRef (release_output raises st) = streamRef st"
  "inputAudioContextRef (release_output raises st) = inputAudioContextRef st"
  "outputAudioContextRef (release_output raises st) = None"
  "sessionRef (release_output raises st) = sessionRef st"
  "requestRef (release_output raises st) = requestRef st"
  "sourcesRef (release_output raises st) = (if outputAudioContextRef st = None then sourcesRef st else [])"
  "sessionPromise (release_output raises st) = sessionPromise st"
  "reactions (release_output raises st) = reactions st"
  "microtasks (release_output raises st) = microtasks st"
  "calls (release_output raises st) = calls st @ (if outputAudioContextRef st = None then [] else map SourceStop (filter (\<lambda>n. \<not> raises n) (map node_id (sourcesRef st))) @ [OutputContextClose])"
  by (cases "outputAudioContextRef st"; simp add: release_output_def stop_sources_eq Let_def)+

lemma release_session_fields:
  "processorRef (release_session st) = processorRef st"
  "sourceNodeRef (release_session st) = sourceNodeRef st"
  "streamRef (release_session st) = streamRef st"
  "inputAudioContextRef (release_session st) = inputAudioContextRef st"
  "outputAudioContextRef (release_session st) = outputAudioContextRef st"
  "sessionRef (release_session st) = None"
  "requestRef (release_session st) = requestRef st"
  "sourcesRef (release_session st) = sourcesRef st"
  "sessionPromise (release_session st) = sessionPromise st"
  "reactions (release_session st) = reactions st @ (if sessionRef st \<noteq> None \<and> sessionPromise st = Pending then [CloseSession] else [])"
  "microtasks (release_session st) = microtasks st @ (if sessionRef st \<noteq> None \<and> sessionPromise st = Fulfilled then [CloseSession] else [])"
  "calls (release_session st) = calls st"
  by (cases "sessionRef st"; cases "sessionPromise st"; simp add: release_session_def promise_then_def)+

lemma cancel_frame_fields:
  "processorRef (cancel_frame st) = processorRef st"
  "sourceNodeRef (cancel_frame st) = sourceNodeRef st"
  "streamRef (cancel_frame st) = streamRef st"
  "inputAudioContextRef (cancel_frame st) = inputAudioContextRef st"
  "outputAudioContextRef (cancel_frame st) = outputAudioContextRef st"
  "sessionRef (cancel_frame st) = sessionRef st"
  "requestRef (cancel_frame st) = requestRef st"
  "sourcesRef (cancel_frame st) = sourcesRef st"
  "sessionPromise (cancel_frame st) = sessionPromise st"
  "reactions (cancel_frame st) = reactions st"
  "microtasks (cancel_frame st) = microtasks st"
  "calls (cancel_frame st) = calls st @ (case requestRef st of None \<Rightarrow> [] | Some frame \<Rightarrow> if frame \<noteq> 0 then [CancelAnimationFrame frame] else [])"
  by (cases "requestRef st"; simp add: cancel_frame_def)+

lemmas release_fields = release_processor_fields release_sourceNode_fields
  release_stream_fields release_input_fields release_output_fields release_session_fields
  cancel_frame_fields

lemma cleanupAudio_refs:
  "processorRef (cleanupAudio raises st) = None"
  "sourceNodeRef (cleanupAudio raises st) = None"
  "streamRef (cleanupAudio raises st) = None"
  "inputAudioContextRef (cleanupAudio raises st) = None"
  "outputAudioContextRef (cleanupAudio raises st) = None"
  "sessionRef (cleanupAudio raises st) = None"
  "requestRef (cleanupAudio raises st) = requestRef st"
  "sessionPromise (cleanupAudio raises st) = sessionPromise st"
  by (simp_all add: cleanupAudio_def release_fields)

lemma cleanupAudio_released:
  assumes "processorRef st = None" "sourceNodeRef st = None" "streamRef st = None"
    "inputAudioContextRef st = None" "outputAudioContextRef st = None" "sessionRef st = None"
  shows "cleanupAudio raises st = cancel_frame st"
  using assms
  by (simp add: cleanupAudio_def release_processor_def release_sourceNode_def release_stream_def
      release_input_def release_output_def release_session_def)

lemma cleanupAudio_twice:
  "cleanupAudio raises' (cleanupAudio raises st) = cancel_frame (cleanupAudio raises st)"
  by (rule cleanupAudio_released) (simp_all add: cleanupAudio_refs)

lemma cleanupAudio_calls:
  "calls (cleanupAudio raises st) = calls st
     @ (if processorRef st = None then [] else [ProcessorDisconnect])
     @ (if sourceNodeRef st = None then [] else [SourceNodeDisconnect])
     @ (case streamRef st of None \<Rightarrow> [] | Some tracks \<Rightarrow> map TrackStop tracks)
     @ (if inputAudioContextRef st = None then [] else [InputContextClose])
     @ (if outputAudioContextRef st = None then []
        else map SourceStop (filter (\<lambda>n. \<not> raises n) (map node_id (sourcesRef st)))
             @ [OutputContextClose])
     @ (case requestRef st of None \<Rightarrow> []
        | Some frame \<Rightarrow> if frame \<noteq> 0 then [CancelAnimationFrame frame] else [])"
  by (simp only: cleanupAudio_def release_fields append_assoc)

lemma cleanupAudio_sources:
  "sourcesRef (cleanupAudio raises st) = (if outputAudioContextRef st = None then sourcesRef st else [])"
  by (simp only: cleanupAudio_def release_fields)

lemma cleanupAudio_queues:
  "reactions (cleanupAudio raises st) =
     reactions st @ (if sessionRef st \<noteq> None \<and> sessionPromise st = Pending then [CloseSession] else [])"
  "microtasks (cleanupAudio raises st) =
     microtasks st @ (if sessionRef st \<noteq> None \<and> sessionPromise st = Fulfilled then [CloseSession] else [])"
  by (simp_all only: cleanupAudio_def release_fields)

lemma count_list_distinct: "distinct xs \<Longrightarrow> x \<in> set xs \<Longrightarrow> count_list xs x = 1"
  by (induction xs) auto

lemma releases_cancel_frame: "releases (cancel_frame st) = releases st"
  by (cases "requestRef st") (simp_all add: releases_def cancel_frame_def)

lemma cancel_frame_refs:
  "processorRef (cancel_frame st) = processorRef st"
  "sourceNodeRef (cancel_frame st) = sourceNodeRef st"
  "streamRef (cancel_frame st) = streamRef st"
  "inputAudioContextRef (cancel_frame st) = inputAudioContextRef st"
  "outputAudioContextRef (cancel_frame st) = outputAudioContextRef st"
  "sessionRef (cancel_frame st) = sessionRef st"
  by (simp_all add: cancel_frame_fields)

lemma cleanupAudio_again:
  "releases ((cleanupAudio raises ^^ n) (cleanupAudio raises st)) = releases (cleanupAudio raises st)
   \<and> processorRef ((cleanupAudio raises ^^ n) (cleanupAudio raises st)) = None
   \<and> sourceNodeRef ((cleanupAudio raises ^^ n) (cleanupAudio raises st)) = None
   \<and> streamRef ((cleanupAudio raises ^^ n) (cleanupAudio raises st)) = None
   \<and> inputAudioContextRef ((cleanupAudio raises ^^ n) (cleanupAudio raises st)) = None
   \<and> outputAudioContextRef ((cleanupAudio raises ^^ n) (cleanupAudio raises st)) = None
   \<and> sessionRef ((cleanupAudio raises ^^ n) (cleanupAudio raises st)) = None"
proof (induction n)
  case 0
  show ?case by (simp add: cleanupAudio_refs)
next
  case (Suc n)
  let ?s = "(cleanupAudio raises ^^ n) (cleanupAudio raises st)"
  have "cleanupAudio raises ?s = cancel_frame ?s"
    using Suc by (intro cleanupAudio_released) simp_all
  then show ?case using Suc by (simp add: releases_cancel_frame cancel_frame_refs)
qed

lemma cleanupAudio_funpow:
  assumes "0 < n"
  shows "releases ((cleanupAudio raises ^^ n) st) = releases (cleanupAudio raises st)"
proof -
  from assms obtain m where n: "n = Suc m" by (cases n) auto
  have "(cleanupAudio raises ^^ Suc m) st = (cleanupAudio raises ^^ m) (cleanupAudio raises st)"
    by (simp only: funpow_Suc_right o_apply)
  then show ?thesis using cleanupAudio_again[where raises = raises and n = m and st = st] by (simp add: n)
qed

lemma filter_release_stops: "filter is_release (map SourceStop ns) = map SourceStop ns"
  by (induction ns) auto

lemma filter_release_tracks: "filter is_release (map TrackStop ts) = map TrackStop ts"
  by (induction ts) auto

lemma releases_first:
  assumes "releases st = []"
  shows "releases (cleanupAudio raises st) =
       (if processorRef st = None then [] else [ProcessorDisconnect])
     @ (if sourceNodeRef st = None then [] else [SourceNodeDisconnect])
     @ (case streamRef st of None \<Rightarrow> [] | Some tracks \<Rightarrow> map TrackStop tracks)
     @ (if inputAudioContextRef st = None then [] else [InputContextClose])
     @ (if outputAudioContextRef st = None then []
        else map SourceStop (filter (\<lambda>n. \<not> raises n) (map node_id (sourcesRef st)))
             @ [OutputContextClose])
     @ (if sessionRef st \<noteq> None \<and> sessionPromise st \<noteq> Rejected then [SessionClose] else [])"
proof -
  from assms have a: "filter is_release (calls st) = []"
    "filter is_release (map perform (microtasks st)) = []"
    "filter is_release (map perform (reactions st)) = []"
    by (simp_all add: releases_def)
  have fr: "filter is_release (case requestRef st of None \<Rightarrow> []
        | Some frame \<Rightarrow> if frame \<noteq> 0 then [CancelAnimationFrame frame] else []) = []"
    by (simp split: option.splits)
  have tr: "filter is_release (case streamRef st of None \<Rightarrow> [] | Some tracks \<Rightarrow> map TrackStop tracks)
      = (case streamRef st of None \<Rightarrow> [] | Some tracks \<Rightarrow> map TrackStop tracks)"
    by (simp add: filter_release_tracks split: option.splits)
  show ?thesis
    unfolding releases_def cleanupAudio_calls cleanupAudio_queues
    by (cases "sessionPromise st") (simp_all add: a fr tr filter_release_stops)
qed

lemma count_list_stops: "count_list (map SourceStop ns) (SourceStop n) = count_list ns n"
  by (induction ns) auto

lemma count_list_tracks: "count_list (map TrackStop ts) (TrackStop t) = count_list ts t"
  by (induction ts) auto

lemma count_list_stops_other:
  "(\<And>n. e \<noteq> SourceStop n) \<Longrightarrow> count_list (map SourceStop ns) e = 0"
  by (induction ns) auto

lemma count_list_tracks_other:
  "(\<And>t. e \<noteq> TrackStop t) \<Longrightarrow> count_list (map TrackStop ts) e = 0"
  by (induction ts) auto

text \<open>
  C7. Closing is idempotent. After one or more calls of \<open>cleanupAudio\<close> the release
  calls made (or waiting for the session promise) are those of the first call alone, and
  the refs of the processor, the stream, both contexts and the session are empty. When
  nothing was released before, the first call releases each resource held exactly once:
  the processor node, each track of the microphone stream, the input context, the output
  context, each scheduled source whose \<open>stop\<close> does not raise, and the network session
  (unless its promise was rejected, when there is no session).
\<close>

theorem cleanup_is_idempotent:
  assumes "0 < n"
  shows "releases ((cleanupAudio raises ^^ n) st) = releases (cleanupAudio raises st)
     \<and> processorRef ((cleanupAudio raises ^^ n) st) = None
     \<and> streamRef ((cleanupAudio raises ^^ n) st) = None
     \<and> inputAudioContextRef ((cleanupAudio raises ^^ n) st) = None
     \<and> outputAudioContextRef ((cleanupAudio raises ^^ n) st) = None
     \<and> sessionRef ((cleanupAudio raises ^^ n) st) = None
     \<and> (releases st = [] \<longrightarrow>
          (processorRef st \<noteq> None
             \<longrightarrow> count_list (releases ((cleanupAudio raises ^^ n) st)) ProcessorDisconnect = 1)
        \<and> (\<forall>tracks t. streamRef st = Some tracks \<and> distinct tracks \<and> t \<in> set tracks
             \<longrightarrow> count_list (releases ((cleanupAudio raises ^^ n) st)) (TrackStop t) = 1)
        \<and> (inputAudioContextRef st \<noteq> None
             \<longrightarrow> count_list (releases ((cleanupAudio raises ^^ n) st)) InputContextClose = 1)
        \<and> (outputAudioContextRef st \<noteq> None
             \<longrightarrow> count_list (releases ((cleanupAudio raises ^^ n) st)) OutputContextClose = 1)
        \<and> (\<forall>source. outputAudioContextRef st \<noteq> None \<and> distinct (map node_id (sourcesRef st))
               \<and> source \<in> set (sourcesRef st) \<and> \<not> raises (node_id source)
             \<longrightarrow> count_list (releases ((cleanupAudio raises ^^ n) st)) (SourceStop (node_id source)) = 1)
        \<and> (sessionRef st \<noteq> None \<and> sessionPromise st \<noteq> Rejected
             \<longrightarrow> count_list (releases ((cleanupAudio raises ^^ n) st)) SessionClose = 1))"
proof -
  from assms obtain m where n: "n = Suc m" by (cases n) auto
  have pow: "(cleanupAudio raises ^^ n) st = (cleanupAudio raises ^^ m) (cleanupAudio raises st)"
    unfolding n by (simp only: funpow_Suc_right o_apply)
  note again = cleanupAudio_again[where raises = raises and n = m and st = st, folded pow]
  have rel: "releases ((cleanupAudio raises ^^ n) st) = releases (cleanupAudio raises st)"
    using again by blast
  have counts: "(processorRef st \<noteq> None
             \<longrightarrow> count_list (releases (cleanupAudio raises st)) ProcessorDisconnect = 1)
        \<and> (\<forall>tracks t. streamRef st = Some tracks \<and> distinct tracks \<and> t \<in> set tracks
             \<longrightarrow> count_list (releases (cleanupAudio raises st)) (TrackStop t) = 1)
        \<and> (inputAudioContextRef st \<noteq> None
             \<longrightarrow> count_list (releases (cleanupAudio raises st)) InputContextClose = 1)
        \<and> (outputAudioContextRef st \<noteq> None
             \<longrightarrow> count_list (releases (cleanupAudio raises st)) OutputContextClose = 1)
        \<and> (\<forall>source. outputAudioContextRef st \<noteq> None \<and> distinct (map node_id (sourcesRef st))
               \<and> source \<in> set (sourcesRef st) \<and> \<not> raises (node_id source)
             \<longrightarrow> count_list (releases (cleanupAudio raises st)) (SourceStop (node_id source)) = 1)
        \<and> (sessionRef st \<noteq> None \<and> sessionPromise st \<noteq> Rejected
             \<longrightarrow> count_list (releases (cleanupAudio raises st)) SessionClose = 1)"
    if none: "releases st = []"
  proof -
    note r = releases_first[OF none, of raises]
    have 1: "processorRef st \<noteq> None
          \<Longrightarrow> count_list (releases (cleanupAudio raises st)) ProcessorDisconnect = 1"
      unfolding r
      by (auto simp: count_list_stops_other count_list_tracks_other split: option.splits)
    have 2: "count_list (releases (cleanupAudio raises st)) (TrackStop t) = 1"
      if "streamRef st = Some tracks" "distinct tracks" "t \<in> set tracks" for tracks t
      unfolding r using that
      by (simp add: count_list_stops_other count_list_tracks count_list_distinct)
    have 3: "inputAudioContextRef st \<noteq> None
          \<Longrightarrow> count_list (releases (cleanupAudio raises st)) InputContextClose = 1"
      unfolding r
      by (auto simp: count_list_stops_other count_list_tracks_other split: option.splits)
    have 4: "outputAudioContextRef st \<noteq> None
          \<Longrightarrow> count_list (releases (cleanupAudio raises st)) OutputContextClose = 1"
      unfolding r
      by (auto simp: count_list_stops_other count_list_tracks_other split: option.splits)
    have 5: "count_list (releases (cleanupAudio raises st)) (SourceStop (node_id source)) = 1"
      if "outputAudioContextRef st \<noteq> None" "distinct (map node_id (sourcesRef st))"
        "source \<in> set (sourcesRef st)" "\<not> raises (node_id source)" for source
    proof -
      have "count_list (filter (\<lambda>n. \<not> raises n) (map node_id (sourcesRef st))) (node_id source) = 1"
        using that by (intro count_list_distinct) auto
      then show ?thesis
        unfolding r using that(1)
        by (simp add: count_list_stops count_list_tracks_other split: option.splits)
    qed
    have 6: "sessionRef st \<noteq> None \<and> sessionPromise st \<noteq> Rejected
          \<Longrightarrow> count_list (releases (cleanupAudio raises st)) SessionClose = 1"
      unfolding r
      by (auto simp: count_list_stops_other count_list_tracks_other split: option.splits)
    from 1 2 3 4 5 6 show ?thesis by blast
  qed
  show ?thesis
    unfolding rel using again counts by blast
qed


lemma releases_playing_session: "releases playing_session = []"
  by (simp add: releases_def playing_session_eq)

theorem cleanup_is_idempotent_witness:
  "(0::nat) < 2 \<and> releases playing_session = []
   \<and> processorRef playing_session \<noteq> None \<and> streamRef playing_session = Some [0]
   \<and> inputAudioContextRef playing_session \<noteq> None \<and> outputAudioContextRef playing_session \<noteq> None
   \<and> sessionRef playing_session \<noteq> None \<and> sessionPromise playing_session \<noteq> Rejected
   \<and> releases ((cleanupAudio never_raises ^^ 2) playing_session)
       = [ProcessorDisconnect, SourceNodeDisconnect, TrackStop 0, InputContextClose,
          SourceStop 0, SourceStop 1, OutputContextClose, SessionClose]
   \<and> count_list (releases ((cleanupAudio never_raises ^^ 2) playing_session)) (TrackStop 0) = 1
   \<and> count_list (releases ((cleanupAudio never_raises ^^ 2) playing_session)) SessionClose = 1"
proof -
  have n: "(0::nat) < 2" by simp
  have st: "processorRef playing_session \<noteq> None \<and> streamRef playing_session = Some [0]
   \<and> inputAudioContextRef playing_session \<noteq> None \<and> outputAudioContextRef playing_session \<noteq> None
   \<and> sessionRef playing_session \<noteq> None \<and> sessionPromise playing_session \<noteq> Rejected"
    by (simp add: playing_session_eq)
  have first: "releases (cleanupAudio never_raises playing_session)
       = [ProcessorDisconnect, SourceNodeDisconnect, TrackStop 0, InputContextClose,
          SourceStop 0, SourceStop 1, OutputContextClose, SessionClose]"
    unfolding releases_first[OF releases_playing_session]
    by (simp add: playing_session_eq never_raises_def)
  note th = cleanup_is_idempotent[OF n, where raises = never_raises and st = playing_session]
  from th have twice: "releases ((cleanupAudio never_raises ^^ 2) playing_session)
      = releases (cleanupAudio never_raises playing_session)"
    by blast
  from th releases_playing_session st
  have c1: "count_list (releases ((cleanupAudio never_raises ^^ 2) playing_session)) SessionClose = 1"
    by blast
  have "distinct [0::nat] \<and> (0::nat) \<in> set [0]" by simp
  with th releases_playing_session st
  have c2: "count_list (releases ((cleanupAudio never_raises ^^ 2) playing_session)) (TrackStop 0) = 1"
    by blast
  from n st twice first c1 c2 releases_playing_session show ?thesis by simp
qed

text \<open>
  C10. Stopping the sources is exception-safe, whichever \<open>stop\<close> calls raise. On an
  interruption every source whose \<open>stop\<close> does not raise is stopped, the set is emptied
  and the anchor reset. In \<open>cleanupAudio\<close> with the output context open, every such
  source is stopped, the set is emptied, the output context is closed, its ref and the
  session ref are emptied, and the close of the session is handed to the promise.
\<close>

theorem stop_failures_are_contained:
  "(let st' = onmessage fadd decode raises now interrupt_message st;
        made = drop (length (calls st)) (calls st')
    in (\<forall>source \<in> set (sourcesRef st).
           \<not> raises (node_id source) \<longrightarrow> SourceStop (node_id source) \<in> set made)
     \<and> sourcesRef st' = [] \<and> nextStartTimeRef st' = 0)
   \<and> (outputAudioContextRef st \<noteq> None \<longrightarrow>
       (let st' = cleanupAudio raises st;
            made = drop (length (calls st)) (calls st')
        in (\<forall>source \<in> set (sourcesRef st).
               \<not> raises (node_id source) \<longrightarrow> SourceStop (node_id source) \<in> set made)
         \<and> sourcesRef st' = []
         \<and> OutputContextClose \<in> set made
         \<and> outputAudioContextRef st' = None
         \<and> sessionRef st' = None
         \<and> (sessionRef st \<noteq> None \<and> sessionPromise st \<noteq> Rejected
              \<longrightarrow> CloseSession \<in> set (reactions st' @ microtasks st'))))"
proof (intro conjI impI)
  show "let st' = onmessage fadd decode raises now interrupt_message st;
        made = drop (length (calls st)) (calls st')
    in (\<forall>source \<in> set (sourcesRef st).
           \<not> raises (node_id source) \<longrightarrow> SourceStop (node_id source) \<in> set made)
     \<and> sourcesRef st' = [] \<and> nextStartTimeRef st' = 0"
    by (auto simp: onmessage_interrupt on_interrupted_eq Let_def)
next
  assume out: "outputAudioContextRef st \<noteq> None"
  have made: "drop (length (calls st)) (calls (cleanupAudio raises st)) =
       (if processorRef st = None then [] else [ProcessorDisconnect])
     @ (if sourceNodeRef st = None then [] else [SourceNodeDisconnect])
     @ (case streamRef st of None \<Rightarrow> [] | Some tracks \<Rightarrow> map TrackStop tracks)
     @ (if inputAudioContextRef st = None then [] else [InputContextClose])
     @ (map SourceStop (filter (\<lambda>n. \<not> raises n) (map node_id (sourcesRef st)))
             @ [OutputContextClose])
     @ (case requestRef st of None \<Rightarrow> []
        | Some frame \<Rightarrow> if frame \<noteq> 0 then [CancelAnimationFrame frame] else [])"
    unfolding cleanupAudio_calls using out by simp
  have session: "CloseSession \<in> set (reactions (cleanupAudio raises st) @ microtasks (cleanupAudio raises st))"
    if "sessionRef st \<noteq> None \<and> sessionPromise st \<noteq> Rejected"
    using that unfolding cleanupAudio_queues by (cases "sessionPromise st") simp_all
  show "let st' = cleanupAudio raises st;
            made = drop (length (calls st)) (calls st')
        in (\<forall>source \<in> set (sourcesRef st).
               \<not> raises (node_id source) \<longrightarrow> SourceStop (node_id source) \<in> set made)
         \<and> sourcesRef st' = []
         \<and> OutputContextClose \<in> set made
         \<and> outputAudioContextRef st' = None
         \<and> sessionRef st' = None
         \<and> (sessionRef st \<noteq> None \<and> sessionPromise st \<noteq> Rejected
              \<longrightarrow> CloseSession \<in> set (reactions st' @ microtasks st'))"
    unfolding Let_def made
    using out session by (auto simp: cleanupAudio_refs cleanupAudio_sources)
qed


theorem stop_failures_are_contained_witness:
  "node0_raises 0 \<and> \<not> node0_raises 1
   \<and> map node_id (sourcesRef playing_session) = [0, 1]
   \<and> outputAudioContextRef playing_session \<noteq> None
   \<and> sessionRef playing_session \<noteq> None \<and> sessionPromise playing_session \<noteq> Rejected
   \<and> SourceStop 1 \<in> set (drop (length (calls playing_session))
        (calls (onmessage (+) sample_decode node0_raises 3 interrupt_message playing_session)))
   \<and> sourcesRef (onmessage (+) sample_decode node0_raises 3 interrupt_message playing_session) = []
   \<and> SourceStop 1 \<in> set (drop (length (calls playing_session))
        (calls (cleanupAudio node0_raises playing_session)))
   \<and> OutputContextClose \<in> set (drop (length (calls playing_session))
        (calls (cleanupAudio node0_raises playing_session)))
   \<and> CloseSession \<in> set (reactions (cleanupAudio node0_raises playing_session)
        @ microtasks (cleanupAudio node0_raises playing_session))"
proof -
  have r: "node0_raises 0 \<and> \<not> node0_raises 1" by (simp add: node0_raises_def)
  have src: "\<lparr>node_id = 1, node_buffer = buffer500\<rparr> \<in> set (sourcesRef playing_session)"
    by (simp add: playing_session_eq)
  have st: "map node_id (sourcesRef playing_session) = [0, 1]
      \<and> outputAudioContextRef playing_session \<noteq> None
      \<and> sessionRef playing_session \<noteq> None \<and> sessionPromise playing_session \<noteq> Rejected"
    by (simp add: playing_session_eq)
  note th = stop_failures_are_contained[where fadd = "(+)" and decode = sample_decode
      and raises = node0_raises and now = 3 and st = playing_session, unfolded Let_def]
  from th have all: "\<forall>source \<in> set (sourcesRef playing_session).
           \<not> node0_raises (node_id source) \<longrightarrow> SourceStop (node_id source)
             \<in> set (drop (length (calls playing_session))
        (calls (onmessage (+) sample_decode node0_raises 3 interrupt_message playing_session)))"
    by blast
  from bspec[OF all src] r have a: "SourceStop 1
        \<in> set (drop (length (calls playing_session))
        (calls (onmessage (+) sample_decode node0_raises 3 interrupt_message playing_session)))"
    by simp
  from th have b: "sourcesRef (onmessage (+) sample_decode node0_raises 3 interrupt_message playing_session) = []"
    by blast
  from th st have c: "(\<forall>source \<in> set (sourcesRef playing_session).
               \<not> node0_raises (node_id source) \<longrightarrow> SourceStop (node_id source)
                 \<in> set (drop (length (calls playing_session))
                      (calls (cleanupAudio node0_raises playing_session))))
      \<and> OutputContextClose \<in> set (drop (length (calls playing_session))
        (calls (cleanupAudio node0_raises playing_session)))
      \<and> CloseSession \<in> set (reactions (cleanupAudio node0_raises playing_session)
        @ microtasks (cleanupAudio node0_raises playing_session))"
    by blast
  then have all2: "\<forall>source \<in> set (sourcesRef playing_session).
               \<not> node0_raises (node_id source) \<longrightarrow> SourceStop (node_id source)
                 \<in> set (drop (length (calls playing_session))
                      (calls (cleanupAudio node0_raises playing_session)))"
    by blast
  from bspec[OF all2 src] r have d: "SourceStop 1
        \<in> set (drop (length (calls playing_session))
        (calls (cleanupAudio node0_raises playing_session)))"
    by simp
  from r st a b c d show ?thesis by simp
qed

section \<open>Capture\<close>

lemma sent_append: "sent (xs @ ys) = sent xs @ sent ys"
  by (induction xs rule: sent.induct) auto

lemma queued_append: "queued (xs @ ys) = queued xs @ queued ys"
  by (induction xs rule: queued.induct) auto

lemma sent_perform: "sent (map perform rs) = queued rs"
  by (induction rs rule: queued.induct) auto

lemma captured_append: "captured (xs @ ys) = captured xs @ captured ys"
  by (induction xs rule: captured.induct) auto

lemma capture_inv_opened: "capture_inv [] (opened tracks)"
  by (simp add: capture_inv_def opened_eq)

lemma capture_inv_step:
  assumes "capture_inv packets st"
  shows "capture_inv (packets @ map createPcmBlob (captured [e])) (capture_step createPcmBlob st e)"
proof (cases e)
  case (AudioProcess inputData)
  with assms show ?thesis
    by (cases "sessionPromise st")
      (simp_all add: capture_inv_def onaudioprocess_def promise_then_def run_microtasks_def
        sent_append queued_append)
next
  case ToggleMute
  with assms show ?thesis
    by (cases "sessionPromise st")
      (simp_all add: capture_inv_def toggleMute_def run_microtasks_def)
next
  case (SessionSettled resolved)
  with assms show ?thesis
    by (cases "sessionPromise st"; cases resolved)
      (simp_all add: capture_inv_def settle_session_def run_microtasks_def sent_append
        sent_perform)
qed

lemma capture_inv_run:
  "capture_inv packets st
   \<Longrightarrow> capture_inv (packets @ map createPcmBlob (captured events))
         (capture_run createPcmBlob events st)"
proof (induction events arbitrary: packets st)
  case Nil
  then show ?case by (simp add: capture_run_def)
next
  case (Cons e events)
  have "capture_inv (packets @ map createPcmBlob (captured [e])) (capture_step createPcmBlob st e)"
    using Cons.prems by (rule capture_inv_step)
  from Cons.IH[OF this]
  have "capture_inv ((packets @ map createPcmBlob (captured [e])) @ map createPcmBlob (captured events))
          (capture_run createPcmBlob events (capture_step createPcmBlob st e))" .
  moreover have "captured (e # events) = captured [e] @ captured events"
    using captured_append[of "[e]" events] by simp
  ultimately show ?case by (simp add: capture_run_def)
qed

text \<open>
  C8. In every run of the capture side from the opened session (frames delivered, the mute
  button pressed, the session promise settling), the packets handed to
  \<open>sendRealtimeInput\<close> are the packets of the captured frames in the order of capture:
  all of them once the promise is fulfilled, none while it is pending (they wait in the
  order of capture) or after it was rejected; so the packets sent are always an initial
  part of the captured ones, the k-th sent being the k-th captured. The hand-over does not
  wait: \<open>onaudioprocess\<close> itself makes no call, the send happens in a later callback
  of the promise.
\<close>

theorem packets_sent_in_capture_order:
  "let st' = capture_run createPcmBlob events (opened tracks);
       packets = map createPcmBlob (captured events)
   in (case sessionPromise st' of
         Pending \<Rightarrow> sent (calls st') = [] \<and> queued (reactions st') = packets
       | Fulfilled \<Rightarrow> sent (calls st') = packets
       | Rejected \<Rightarrow> sent (calls st') = [])
    \<and> sent (calls st') = take (length (sent (calls st'))) packets
    \<and> calls (onaudioprocess createPcmBlob processor inputData st) = calls st"
proof -
  have inv: "capture_inv ([] @ map createPcmBlob (captured events))
      (capture_run createPcmBlob events (opened tracks))"
    by (rule capture_inv_run) (rule capture_inv_opened)
  have ff: "calls (onaudioprocess createPcmBlob processor inputData st) = calls st"
    by (cases "sessionPromise st") (simp_all add: onaudioprocess_def promise_then_def)
  from inv ff show ?thesis
    by (cases "sessionPromise (capture_run createPcmBlob events (opened tracks))")
      (simp_all add: capture_inv_def Let_def)
qed

text \<open>
  C5 fails on the code: the closure \<open>onaudioprocess\<close> reads the \<open>isMuted\<close> of the
  first render, so muting does not stop the frames. With the session connected, the mute
  button pressed (the state \<open>isMuted\<close> is true) and then a frame captured, the packet
  of that frame is sent.
\<close>

theorem muted_frames_are_still_sent:
  "let st = capture_run createPcmBlob [SessionSettled True, ToggleMute, AudioProcess inputData]
              (opened tracks)
   in isMuted st = True \<and> sent (calls st) = [createPcmBlob inputData]"
  by (simp add: capture_run_def opened_eq settle_session_def run_microtasks_def toggleMute_def
      onaudioprocess_def promise_then_def Let_def)

section \<open>Analysis\<close>

lemma analyzeDiaryEntry_cases:
  "analyzeDiaryEntry svc entry attachments config =
     (case analysis_steps svc entry attachments config of
        Inl e \<Rightarrow> Inr (Fallback fallback_analysis)
      | Inr parsed \<Rightarrow> Inr (Parsed parsed))"
  by (simp add: analyzeDiaryEntry_def try_catch_def split: sum.splits)

lemma callDeepSeek_fails:
  assumes "\<And>request. (\<exists>e. fetch svc request = Inl e) \<or> (\<exists>r. fetch svc request = Inr r \<and> \<not> ok r)"
  shows "\<exists>e. callDeepSeek svc msgs key json = Inl e"
proof -
  let ?req = "\<lparr>url = ''https://api.deepseek.com/chat/completions'', bearer = key,
      request_model = ''deepseek-chat'', messages = msgs, jsonMode = json,
      temperature = 13 / 10\<rparr>"
  from assms[of ?req] show ?thesis
    by (auto simp: callDeepSeek_def try_catch_def)
qed

lemma callSiliconFlow_fails:
  assumes "\<And>request. (\<exists>e. fetch svc request = Inl e) \<or> (\<exists>r. fetch svc request = Inr r \<and> \<not> ok r)"
  shows "\<exists>e. callSiliconFlow svc msgs key mdl json = Inl e"
proof -
  let ?req = "\<lparr>url = ''https://api.siliconflow.cn/v1/chat/completions'', bearer = key,
      request_model = or_else (Some mdl) ''deepseek-ai/DeepSeek-V3'', messages = msgs,
      jsonMode = json, temperature = 7 / 10\<rparr>"
  from assms[of ?req] show ?thesis
    by (auto simp: callSiliconFlow_def try_catch_def Let_def)
qed

lemma steps_fail_network:
  assumes f: "\<And>request. (\<exists>e. fetch svc request = Inl e) \<or> (\<exists>r. fetch svc request = Inr r \<and> \<not> ok r)"
    and g: "\<And>client parts. (\<exists>e. generateContent svc client parts = Inl e)
        \<or> generateContent svc client parts = Inr None
        \<or> generateContent svc client parts = Inr (Some [])"
  shows "\<exists>e. analysis_steps svc entry attachments config = Inl e"
proof -
  obtain e1 where d: "callDeepSeek svc [SystemPrompt, UserText entry]
      (or_else (case config of None \<Rightarrow> None | Some c \<Rightarrow> apiKey c) []) True = Inl e1"
    using callDeepSeek_fails[OF f] by blast
  obtain e2 where s: "callSiliconFlow svc [SystemPrompt, UserText entry]
      (or_else (case config of None \<Rightarrow> None | Some c \<Rightarrow> apiKey c) [])
      (or_else (case config of None \<Rightarrow> None | Some c \<Rightarrow> model c) ''deepseek-ai/DeepSeek-V3'')
      True = Inl e2"
    using callSiliconFlow_fails[OF f] by blast
  let ?prov = "case config of None \<Rightarrow> Gemini | Some c \<Rightarrow> provider c"
  let ?key = "case config of None \<Rightarrow> None | Some c \<Rightarrow> apiKey c"
  let ?client = "if ?prov = Gemini \<and> truthy ?key then ?key else None"
  let ?parts = "attachment_parts attachments
                  @ [AnalysisPrompt entry
                       (attachments \<noteq> [] \<and> (?prov = DeepSeek \<or> ?prov = SiliconFlow))]"
  from g[of ?client ?parts]
  have "\<exists>e. (case generateContent svc ?client ?parts of
                 Inl e \<Rightarrow> Inl e
               | Inr response_text \<Rightarrow> parse_response_text svc response_text) = Inl e"
    by (auto simp: parse_response_text_def)
  then obtain e3 where gm: "(case generateContent svc ?client ?parts of
                 Inl e \<Rightarrow> Inl e
               | Inr response_text \<Rightarrow> parse_response_text svc response_text) = Inl e3"
    by blast
  show ?thesis
    unfolding analysis_steps_def Let_def
    using d s gm by (simp del: truthy.simps or_else.simps)
qed

lemma steps_fail_parse:
  assumes "\<And>s. \<exists>e. json_parse svc s = Inl e"
  shows "\<exists>e. analysis_steps svc entry attachments config = Inl e"
proof -
  have p: "\<exists>e. (case r of Inl e \<Rightarrow> Inl e | Inr content \<Rightarrow> json_parse svc content) = Inl e"
    for r :: "js_error + string"
    using assms by (cases r) auto
  have q: "\<exists>e. (case r of Inl e \<Rightarrow> Inl e
                 | Inr response_text \<Rightarrow> parse_response_text svc response_text) = Inl e"
    for r :: "js_error + string option"
    using assms by (cases r) (auto simp: parse_response_text_def split: option.splits)
  show ?thesis
    unfolding analysis_steps_def Let_def
    using p q by (simp del: truthy.simps or_else.simps)
qed


lemma analyzeDiaryEntry_gemini_cases:
  "analyzeDiaryEntry_gemini svc entry attachments =
     (case generateContent svc None (attachment_parts attachments @ [MultimodalPrompt entry]) of
        Inl e \<Rightarrow> Inr (Fallback fallback_analysis_gemini)
      | Inr response_text \<Rightarrow>
          (case parse_response_text svc response_text of
             Inl e \<Rightarrow> Inr (Fallback fallback_analysis_gemini)
           | Inr parsed \<Rightarrow> Inr (Parsed parsed)))"
  by (simp add: analyzeDiaryEntry_gemini_def try_catch_def split: sum.splits)

lemma gemini_fail_network:
  assumes "\<And>client parts. (\<exists>e. generateContent svc client parts = Inl e)
        \<or> generateContent svc client parts = Inr None
        \<or> generateContent svc client parts = Inr (Some [])"
  shows "analyzeDiaryEntry_gemini svc entry attachments = Inr (Fallback fallback_analysis_gemini)"
  using assms[of None "attachment_parts attachments @ [MultimodalPrompt entry]"]
  by (auto simp: analyzeDiaryEntry_gemini_cases parse_response_text_def)

lemma gemini_fail_parse:
  assumes "\<And>s. \<exists>e. json_parse svc s = Inl e"
  shows "analyzeDiaryEntry_gemini svc entry attachments = Inr (Fallback fallback_analysis_gemini)"
proof -
  have p: "\<exists>e. parse_response_text svc t = Inl e" for t
    using assms by (auto simp: parse_response_text_def split: option.splits)
  show ?thesis
  proof (cases "generateContent svc None (attachment_parts attachments @ [MultimodalPrompt entry])")
    case (Inl e)
    then show ?thesis by (simp add: analyzeDiaryEntry_gemini_cases)
  next
    case (Inr t)
    from p[of t] obtain e where "parse_response_text svc t = Inl e" by blast
    with Inr show ?thesis by (simp add: analyzeDiaryEntry_gemini_cases)
  qed
qed

text \<open>
  C9. \<open>analyzeDiaryEntry\<close> (both versions) never rejects: for every text, attachment
  list, configuration and behaviour of the services it resolves. Whenever the body of its
  \<open>try\<close> fails the result is the fixed fallback, whose \<open>moodScore\<close> is 5; in particular
  when every provider call fails (network error, a reply that is not ok, a response with
  no text), and when no response parses as JSON.
\<close>

theorem analyzeDiaryEntry_total:
  "(\<exists>result. analyzeDiaryEntry svc entry attachments config = Inr result)
   \<and> (\<exists>result. analyzeDiaryEntry_gemini svc entry attachments = Inr result)
   \<and> moodScore fallback_analysis = 5 \<and> moodScore fallback_analysis_gemini = 5
   \<and> (\<forall>e. analysis_steps svc entry attachments config = Inl e
         \<longrightarrow> analyzeDiaryEntry svc entry attachments config = Inr (Fallback fallback_analysis))
   \<and> ((\<forall>request. (\<exists>e. fetch svc request = Inl e) \<or> (\<exists>r. fetch svc request = Inr r \<and> \<not> ok r))
       \<and> (\<forall>client parts. (\<exists>e. generateContent svc client parts = Inl e)
              \<or> generateContent svc client parts = Inr None
              \<or> generateContent svc client parts = Inr (Some []))
      \<longrightarrow> analyzeDiaryEntry svc entry attachments config = Inr (Fallback fallback_analysis)
        \<and> analyzeDiaryEntry_gemini svc entry attachments = Inr (Fallback fallback_analysis_gemini))
   \<and> ((\<forall>s. \<exists>e. json_parse svc s = Inl e)
      \<longrightarrow> analyzeDiaryEntry svc entry attachments config = Inr (Fallback fallback_analysis)
        \<and> analyzeDiaryEntry_gemini svc entry attachments = Inr (Fallback fallback_analysis_gemini))"
proof (intro conjI allI impI)
  show "\<exists>result. analyzeDiaryEntry svc entry attachments config = Inr result"
    by (simp add: analyzeDiaryEntry_cases split: sum.splits)
  show "\<exists>result. analyzeDiaryEntry_gemini svc entry attachments = Inr result"
    by (simp add: analyzeDiaryEntry_gemini_cases split: sum.splits)
  show "moodScore fallback_analysis = 5" by (simp add: fallback_analysis_def)
  show "moodScore fallback_analysis_gemini = 5" by (simp add: fallback_analysis_gemini_def)
next
  fix e assume "analysis_steps svc entry attachments config = Inl e"
  then show "analyzeDiaryEntry svc entry attachments config = Inr (Fallback fallback_analysis)"
    by (simp add: analyzeDiaryEntry_cases)
next
  assume a: "(\<forall>request. (\<exists>e. fetch svc request = Inl e) \<or> (\<exists>r. fetch svc request = Inr r \<and> \<not> ok r))
       \<and> (\<forall>client parts. (\<exists>e. generateContent svc client parts = Inl e)
              \<or> generateContent svc client parts = Inr None
              \<or> generateContent svc client parts = Inr (Some []))"
  then have "\<exists>e. analysis_steps svc entry attachments config = Inl e"
    by (intro steps_fail_network) blast+
  then show "analyzeDiaryEntry svc entry attachments config = Inr (Fallback fallback_analysis)"
    by (auto simp: analyzeDiaryEntry_cases)
  from a show "analyzeDiaryEntry_gemini svc entry attachments = Inr (Fallback fallback_analysis_gemini)"
    by (intro gemini_fail_network) blast
next
  assume a: "\<forall>s. \<exists>e. json_parse svc s = Inl e"
  then have "\<exists>e. analysis_steps svc entry attachments config = Inl e"
    by (intro steps_fail_parse) blast
  then show "analyzeDiaryEntry svc entry attachments config = Inr (Fallback fallback_analysis)"
    by (auto simp: analyzeDiaryEntry_cases)
  from a show "analyzeDiaryEntry_gemini svc entry attachments = Inr (Fallback fallback_analysis_gemini)"
    by (intro gemini_fail_parse) blast
qed

theorem analyzeDiaryEntry_total_witness:
  "analysis_steps offline_services ''today'' [] None = Inl NetworkError
   \<and> (\<forall>request. \<exists>r. fetch silent_services request = Inr r \<and> \<not> ok r)
   \<and> (\<forall>client parts. generateContent silent_services client parts = Inr None)
   \<and> (\<forall>s. \<exists>e. json_parse silent_services s = Inl e)
   \<and> analyzeDiaryEntry offline_services ''today'' [] None = Inr (Fallback fallback_analysis)
   \<and> analyzeDiaryEntry silent_services ''today'' [] (Some deepseek_config)
       = Inr (Fallback fallback_analysis)
   \<and> analyzeDiaryEntry_gemini silent_services ''today'' [''data:image/png;base64,AAAA'']
       = Inr (Fallback fallback_analysis_gemini)"
proof -
  have h0: "analysis_steps offline_services ''today'' [] None = Inl NetworkError"
    by (simp add: analysis_steps_def offline_services_def Let_def)
  have h1: "\<forall>request. \<exists>r. fetch silent_services request = Inr r \<and> \<not> ok r"
    by (simp add: silent_services_def)
  have h2: "\<forall>client parts. generateContent silent_services client parts = Inr None"
    by (simp add: silent_services_def)
  have h3: "\<forall>s. \<exists>e. json_parse silent_services s = Inl e"
    by (simp add: silent_services_def)
  note th1 = analyzeDiaryEntry_total[where svc = offline_services and entry = "''today''"
      and attachments = "[]" and config = None]
  note th2 = analyzeDiaryEntry_total[where svc = silent_services and entry = "''today''"
      and attachments = "[]" and config = "Some deepseek_config"]
  note th3 = analyzeDiaryEntry_total[where svc = silent_services and entry = "''today''"
      and attachments = "[''data:image/png;base64,AAAA'']" and config = None]
  from th1 h0 have a: "analyzeDiaryEntry offline_services ''today'' [] None
      = Inr (Fallback fallback_analysis)"
    by blast
  from th2 h1 h2 have b: "analyzeDiaryEntry silent_services ''today'' [] (Some deepseek_config)
       = Inr (Fallback fallback_analysis)"
    by blast
  from th3 h3 have c: "analyzeDiaryEntry_gemini silent_services ''today''
       [''data:image/png;base64,AAAA''] = Inr (Fallback fallback_analysis_gemini)"
    by blast
  from h0 h1 h2 h3 a b c show ?thesis by blast
qed

end
